theory Spec2Isabelle
  imports Complex_Main "HOL-Library.AList" "HOL-Library.Product_Lexorder"
begin

chapter \<open>The outreach orchestration core of dify-salers\<close>

text \<open>
  A shallow embedding of five services under \<^verbatim>\<open>api/services/leads/\<close>:
  \<^verbatim>\<open>spintax_service.py\<close>, \<^verbatim>\<open>smart_scheduler_service.py\<close>,
  \<^verbatim>\<open>proxy_pool_service.py\<close>, \<^verbatim>\<open>follow_back_detector_service.py\<close> and
  \<^verbatim>\<open>conversation_flow_service.py\<close>.

  Conventions of the embedding.
  \<^item> A Python \<^verbatim>\<open>str\<close> is a \<^typ>\<open>string\<close>; the characters are those with a code
    point below 256.
  \<^item> A naive \<^verbatim>\<open>datetime\<close> is the number of microseconds since
    0001-01-01 00:00:00, a \<^verbatim>\<open>timedelta\<close> a number of microseconds; both are
    \<^typ>\<open>int\<close>. The epoch starts an hour and a day, so truncating a datetime to the hour
    or to the day is rounding down to a multiple.
  \<^item> Every \<^verbatim>\<open>datetime.now()\<close> of the source is an argument of the model, one per
    read of the clock, in the order of the reads.
  \<^item> Every draw of the module \<^verbatim>\<open>random\<close> is taken from an argument
    \<open>rnd\<close>: the \<open>i\<close>-th draw of a call is \<open>rnd i\<close>, and
    \<^verbatim>\<open>random.choice(xs)\<close> picks the element at index \<open>rnd i mod len(xs)\<close>. Every
    behaviour of the source is the behaviour of the model for some \<open>rnd\<close>, and
    conversely.
  \<^item> A method that mutates \<^verbatim>\<open>self\<close> returns the service after the call next to
    its result; an exception is a value \<open>Inl e\<close>.
  \<^item> A Python \<^verbatim>\<open>float\<close> is a rational number (\<^typ>\<open>rat\<close>), and
    \<^verbatim>\<open>int(x)\<close> truncates towards zero.
\<close>

type_synonym datetime = int
type_synonym timedelta = int
type_synonym rng = "nat \<Rightarrow> nat"

definition const_rng :: "nat \<Rightarrow> rng" where
  "const_rng k = (\<lambda>_. k)"

definition microseconds_per_second :: int where
  "microseconds_per_second = 1000000"

definition timedelta_seconds :: "int \<Rightarrow> timedelta" where
  "timedelta_seconds n = n * microseconds_per_second"

definition timedelta_minutes :: "int \<Rightarrow> timedelta" where
  "timedelta_minutes n = n * (60 * microseconds_per_second)"

definition timedelta_hours :: "int \<Rightarrow> timedelta" where
  "timedelta_hours n = n * (3600 * microseconds_per_second)"

definition timedelta_days :: "int \<Rightarrow> timedelta" where
  "timedelta_days n = n * (86400 * microseconds_per_second)"

text \<open>\<^verbatim>\<open>random.choice\<close>: the sequences it is called on here are never empty.\<close>

definition random_choice :: "nat \<Rightarrow> 'a list \<Rightarrow> 'a" where
  "random_choice r xs = xs ! (r mod length xs)"

section \<open>Strings\<close>

definition starts_with :: "string \<Rightarrow> string \<Rightarrow> bool" where
  "starts_with s p \<longleftrightarrow> take (length p) s = p"

text \<open>
  \<^verbatim>\<open>s.replace(old, new)\<close> for a non-empty \<open>old\<close>: every occurrence, left to right,
  without overlap.
\<close>

function str_replace :: "string \<Rightarrow> string \<Rightarrow> string \<Rightarrow> string" where
  "str_replace [] old new = []"
| "str_replace (c # cs) old new =
     (if old \<noteq> [] \<and> starts_with (c # cs) old
      then new @ str_replace (drop (length old) (c # cs)) old new
      else c # str_replace cs old new)"
  by pat_completeness auto
termination
  by (relation "measure (\<lambda>(s, old, new). length s)") (auto simp: neq_Nil_conv)

text \<open>\<^verbatim>\<open>s.split(sep)\<close> for a separator of one character.\<close>

fun split_on :: "char \<Rightarrow> string \<Rightarrow> string list" where
  "split_on sep [] = [[]]"
| "split_on sep (c # cs) =
     (if c = sep then [] # split_on sep cs
      else (case split_on sep cs of
              [] \<Rightarrow> [[c]]
            | w # ws \<Rightarrow> (c # w) # ws))"

text \<open>\<^verbatim>\<open>sub in s\<close>.\<close>

fun contains :: "string \<Rightarrow> string \<Rightarrow> bool" where
  "contains [] sub = (sub = [])"
| "contains (c # cs) sub = (starts_with (c # cs) sub \<or> contains cs sub)"

text \<open>\<^verbatim>\<open>str.isspace\<close> on one character, and \<^verbatim>\<open>s.strip()\<close>.\<close>

definition isspace :: "char \<Rightarrow> bool" where
  "isspace c \<longleftrightarrow>
     (let n = (of_char c :: nat)
      in (9 \<le> n \<and> n \<le> 13) \<or> (28 \<le> n \<and> n \<le> 32) \<or> n = 133 \<or> n = 160)"

definition strip :: "string \<Rightarrow> string" where
  "strip s = rev (dropWhile isspace (rev (dropWhile isspace s)))"

text \<open>\<^verbatim>\<open>s.lower()\<close>: the letters A to Z, and the capital letters of Latin-1.\<close>

definition lower_char :: "char \<Rightarrow> char" where
  "lower_char c =
     (let n = (of_char c :: nat)
      in if (65 \<le> n \<and> n \<le> 90) \<or> (192 \<le> n \<and> n \<le> 222 \<and> n \<noteq> 215)
         then char_of (n + 32) else c)"

definition lower :: "string \<Rightarrow> string" where
  "lower s = map lower_char s"

text \<open>\<^verbatim>\<open>str(n)\<close> for an integer.\<close>

definition digit_char :: "nat \<Rightarrow> char" where
  "digit_char d = char_of (48 + d)"

fun str_nat :: "nat \<Rightarrow> string" where
  "str_nat n = (if n < 10 then [digit_char n] else str_nat (n div 10) @ [digit_char (n mod 10)])"

declare str_nat.simps [simp del]

definition str_int :: "int \<Rightarrow> string" where
  "str_int i = (if i < 0 then CHR ''-'' # str_nat (nat (- i)) else str_nat (nat i))"

section \<open>Spintax templates (\<^verbatim>\<open>spintax_service.py\<close>)\<close>

record MessageTemplate =
  mt_id :: string
  mt_name :: string
  template :: string
  mt_variables :: "string list"
  category :: string
  mt_platform :: string
  language :: string
  success_count :: int
  total_used :: int
  mt_created_at :: datetime

record GeneratedMessage =
  gm_template_id :: string
  content :: string
  variables_used :: "(string \<times> string) list"
  generated_at :: datetime

text \<open>The service's \<^verbatim>\<open>_templates\<close>.\<close>

record SpintaxService =
  templates :: "string \<rightharpoonup> MessageTemplate"

text \<open>
  \<^verbatim>\<open>SPINTAX_PATTERN.search(text)\<close> for the pattern \<^verbatim>\<open>\{([^{}]+)\}\<close>: the leftmost
  position that holds an opening brace, one or more characters that are not braces, and a
  closing brace. The result is the text before the match, group 1, and the text after the
  match. At one position the match is unique: the run of non-brace characters is maximal,
  since the next character has to be the closing brace.
\<close>

definition not_brace :: "char \<Rightarrow> bool" where
  "not_brace c \<longleftrightarrow> c \<noteq> CHR ''{'' \<and> c \<noteq> CHR ''}''"

fun spintax_search :: "string \<Rightarrow> (string \<times> string \<times> string) option" where
  "spintax_search [] = None"
| "spintax_search (c # cs) =
     (if c = CHR ''{'' \<and> takeWhile not_brace cs \<noteq> []
         \<and> starts_with (dropWhile not_brace cs) ''}''
      then Some ([], takeWhile not_brace cs, tl (dropWhile not_brace cs))
      else map_option (\<lambda>(pre, body, post). (c # pre, body, post)) (spintax_search cs))"

text \<open>
  \<^verbatim>\<open>spin\<close>: the loop \<^verbatim>\<open>for _ in range(max_iterations)\<close>, with the number of
  iterations left and the number of draws made so far.
\<close>

definition max_iterations :: nat where
  "max_iterations = 10"

fun spin_loop :: "nat \<Rightarrow> rng \<Rightarrow> nat \<Rightarrow> string \<Rightarrow> string" where
  "spin_loop 0 rnd i result = result"
| "spin_loop (Suc n) rnd i result =
     (case spintax_search result of
        None \<Rightarrow> result
      | Some (pre, body, post) \<Rightarrow>
          spin_loop n rnd (Suc i)
            (pre @ random_choice (rnd i) (split_on CHR ''|'' body) @ post))"

definition spin :: "rng \<Rightarrow> string \<Rightarrow> string" where
  "spin rnd text = spin_loop max_iterations rnd 0 text"

text \<open>
  \<^verbatim>\<open>replace_variables\<close>: the variables are the items of the dictionary, in its
  order.
\<close>

fun replace_variables :: "string \<Rightarrow> (string \<times> string) list \<Rightarrow> string" where
  "replace_variables text [] = text"
| "replace_variables text ((var_name, val) # variables) =
     replace_variables (str_replace text (''['' @ var_name @ '']'') val) variables"

definition generate_message ::
  "SpintaxService \<Rightarrow> string \<Rightarrow> (string \<times> string) list \<Rightarrow> rng \<Rightarrow> datetime
     \<Rightarrow> GeneratedMessage option \<times> SpintaxService" where
  "generate_message svc template_id variables rnd now =
     (case templates svc template_id of
        None \<Rightarrow> (None, svc)
      | Some t \<Rightarrow>
          (Some \<lparr> gm_template_id = template_id,
                  content = spin rnd (replace_variables (template t) variables),
                  variables_used = variables,
                  generated_at = now \<rparr>,
           svc\<lparr> templates := (templates svc)(template_id \<mapsto> t\<lparr> total_used := total_used t + 1 \<rparr>) \<rparr>))"

text \<open>
  \<^verbatim>\<open>add_template\<close> stores the template under its id. The source also sets the
  template's \<^verbatim>\<open>variables\<close> to \<^verbatim>\<open>list(set(...))\<close> of the names found in its
  text, a list in no specified order; the model keeps the names in the order found.
\<close>

definition is_ident_start :: "char \<Rightarrow> bool" where
  "is_ident_start c \<longleftrightarrow>
     (let n = (of_char c :: nat) in (65 \<le> n \<and> n \<le> 90) \<or> (97 \<le> n \<and> n \<le> 122) \<or> n = 95)"

definition is_ident_char :: "char \<Rightarrow> bool" where
  "is_ident_char c \<longleftrightarrow> is_ident_start c \<or> (let n = (of_char c :: nat) in 48 \<le> n \<and> n \<le> 57)"

text \<open>
  \<^verbatim>\<open>VARIABLE_PATTERN.findall(text)\<close> for the pattern
  \<^verbatim>\<open>\[([a-zA-Z_][a-zA-Z0-9_]*)\]\<close>: the names, left to right.
\<close>

function variable_findall :: "string \<Rightarrow> string list" where
  "variable_findall [] = []"
| "variable_findall (c # cs) =
     (if c = CHR ''['' \<and> takeWhile is_ident_char cs \<noteq> [] \<and> is_ident_start (hd cs)
         \<and> starts_with (dropWhile is_ident_char cs) '']''
      then takeWhile is_ident_char cs # variable_findall (tl (dropWhile is_ident_char cs))
      else variable_findall cs)"
  by pat_completeness auto
termination
  by (relation "measure length")
     (auto simp: less_Suc_eq_le intro: le_trans [OF diff_le_self length_dropWhile_le])

definition add_template :: "SpintaxService \<Rightarrow> MessageTemplate \<Rightarrow> SpintaxService" where
  "add_template svc t =
     svc\<lparr> templates := (templates svc)(mt_id t \<mapsto>
            t\<lparr> mt_variables := remdups (variable_findall (template t)) \<rparr>) \<rparr>"

text \<open>
  \<^verbatim>\<open>SPINTAX_PATTERN.finditer(text)\<close>: group 1 of the matches, left to right, each
  search starting where the match before it ended.
\<close>

function spintax_finditer :: "string \<Rightarrow> string list" where
  "spintax_finditer [] = []"
| "spintax_finditer (c # cs) =
     (if c = CHR ''{'' \<and> takeWhile not_brace cs \<noteq> []
         \<and> starts_with (dropWhile not_brace cs) ''}''
      then takeWhile not_brace cs # spintax_finditer (tl (dropWhile not_brace cs))
      else spintax_finditer cs)"
  by pat_completeness auto
termination
  by (relation "measure length")
     (auto simp: less_Suc_eq_le intro: le_trans [OF diff_le_self length_dropWhile_le])

record TemplateValidation =
  valid :: bool
  issues :: "string list"
  tv_variables :: "string list"
  sample :: "string option"

definition has_empty_option :: "string \<Rightarrow> bool" where
  "has_empty_option body \<longleftrightarrow> list_ex (\<lambda>opt. strip opt = []) (split_on CHR ''|'' body)"

definition template_issues :: "string \<Rightarrow> string list" where
  "template_issues template_text =
     (let open_count = count_list template_text CHR ''{'';
          close_count = count_list template_text CHR ''}''
      in (if open_count \<noteq> close_count
          then [''Unbalanced braces: '' @ str_nat open_count @ '' open, ''
                  @ str_nat close_count @ '' close'']
          else [])
         @ map (\<lambda>body. ''Empty option in spintax: {'' @ body @ ''}'')
             (filter has_empty_option (spintax_finditer template_text)))"

text \<open>
  \<^verbatim>\<open>validate_template\<close>. The entry \<^verbatim>\<open>variables\<close> is \<^verbatim>\<open>list(set(...))\<close> in
  the source, here the names without repetition.
\<close>

definition validate_template :: "rng \<Rightarrow> string \<Rightarrow> TemplateValidation" where
  "validate_template rnd template_text =
     \<lparr> valid = (template_issues template_text = []),
       issues = template_issues template_text,
       tv_variables = remdups (variable_findall template_text),
       sample = (if template_issues template_text = [] then Some (spin rnd template_text) else None) \<rparr>"

section \<open>Rate limits (\<^verbatim>\<open>smart_scheduler_service.py\<close>)\<close>

datatype ActionType = FOLLOW | UNFOLLOW | DM | LIKE | COMMENT | VIEW_PROFILE | SCROLL

datatype AccountAgeCategory = NEW | WARMING | MATURE

record RateLimitConfig =
  action_type :: ActionType
  hourly_limit :: int
  daily_limit :: int
  min_interval_seconds :: int
  max_interval_seconds :: int
  new_account_multiplier :: rat
  warming_account_multiplier :: rat

text \<open>\<^verbatim>\<open>int(x)\<close> of a number: truncation towards zero.\<close>

definition py_int :: "rat \<Rightarrow> int" where
  "py_int x = (if 0 \<le> x then \<lfloor>x\<rfloor> else \<lceil>x\<rceil>)"

definition get_limit_for_age :: "RateLimitConfig \<Rightarrow> AccountAgeCategory \<Rightarrow> string \<Rightarrow> int" where
  "get_limit_for_age config age period =
     (let base = (if period = ''daily'' then daily_limit config else hourly_limit config)
      in case age of
           NEW \<Rightarrow> py_int (of_int base * new_account_multiplier config)
         | WARMING \<Rightarrow> py_int (of_int base * warming_account_multiplier config)
         | MATURE \<Rightarrow> base)"

record ScheduledAction =
  sa_id :: string
  sa_action_type :: ActionType
  sa_account_id :: string
  sa_target_id :: string
  scheduled_at :: datetime
  payload :: "(string \<times> string) list"
  priority :: int
  retry_count :: int
  max_retries :: int
  executed_at :: "datetime option"
  sa_status :: string
  sa_error_message :: "string option"

record AccountScheduleState =
  account_id :: string
  age_category :: AccountAgeCategory
  timezone :: string
  hourly_actions :: "ActionType \<rightharpoonup> int"
  daily_actions :: "ActionType \<rightharpoonup> int"
  last_action_at :: "ActionType \<rightharpoonup> datetime"
  hourly_reset_at :: datetime
  daily_reset_at :: datetime
  is_cooling :: bool
  cooling_until :: "datetime option"
  cooling_reason :: "string option"

text \<open>The service: \<^verbatim>\<open>_account_states\<close>, \<^verbatim>\<open>_action_queue\<close> and \<^verbatim>\<open>_rate_limits\<close>.\<close>

record SmartSchedulerService =
  account_states :: "string \<rightharpoonup> AccountScheduleState"
  action_queue :: "ScheduledAction list"
  rate_limits :: "string \<rightharpoonup> (ActionType \<rightharpoonup> RateLimitConfig)"

definition RateLimitConfig_init :: "ActionType \<Rightarrow> int \<Rightarrow> int \<Rightarrow> int \<Rightarrow> int \<Rightarrow> RateLimitConfig" where
  "RateLimitConfig_init a h d lo hi =
     \<lparr> action_type = a, hourly_limit = h, daily_limit = d,
       min_interval_seconds = lo, max_interval_seconds = hi,
       new_account_multiplier = 3 / 10, warming_account_multiplier = 6 / 10 \<rparr>"

definition DEFAULT_LIMITS :: "string \<rightharpoonup> (ActionType \<rightharpoonup> RateLimitConfig)" where
  "DEFAULT_LIMITS =
     [''instagram'' \<mapsto>
        [FOLLOW \<mapsto> RateLimitConfig_init FOLLOW 20 100 60 300,
         UNFOLLOW \<mapsto> RateLimitConfig_init UNFOLLOW 30 150 30 120,
         DM \<mapsto> RateLimitConfig_init DM 10 50 120 600,
         LIKE \<mapsto> RateLimitConfig_init LIKE 50 300 10 60],
      ''x'' \<mapsto>
        [FOLLOW \<mapsto> RateLimitConfig_init FOLLOW 30 200 30 180,
         DM \<mapsto> RateLimitConfig_init DM 20 100 60 300,
         LIKE \<mapsto> RateLimitConfig_init LIKE 100 500 5 30]]"

definition SmartSchedulerService_init :: SmartSchedulerService where
  "SmartSchedulerService_init =
     \<lparr> account_states = Map.empty, action_queue = [], rate_limits = DEFAULT_LIMITS \<rparr>"

text \<open>
  \<^verbatim>\<open>_calculate_age_category\<close>; \<^verbatim>\<open>.days\<close> of a timedelta is its number of whole
  days, rounded down.
\<close>

definition calculate_age_category :: "datetime option \<Rightarrow> datetime \<Rightarrow> AccountAgeCategory" where
  "calculate_age_category created_at now =
     (case created_at of
        None \<Rightarrow> MATURE
      | Some c \<Rightarrow>
          (let age_days = (now - c) div timedelta_days 1
           in if age_days < 7 then NEW else if age_days < 30 then WARMING else MATURE))"

text \<open>
  \<^verbatim>\<open>register_account\<close> reads the clock for the age (when \<open>created_at\<close> is given) and
  once for each of the two reset times of the new state.
\<close>

definition register_account ::
  "SmartSchedulerService \<Rightarrow> string \<Rightarrow> datetime option \<Rightarrow> string
     \<Rightarrow> datetime \<Rightarrow> datetime \<Rightarrow> datetime \<Rightarrow> AccountScheduleState \<times> SmartSchedulerService" where
  "register_account svc acc created_at tz now_age now_hourly now_daily =
     (let state = \<lparr> account_id = acc,
                    age_category = calculate_age_category created_at now_age,
                    timezone = tz,
                    hourly_actions = Map.empty,
                    daily_actions = Map.empty,
                    last_action_at = Map.empty,
                    hourly_reset_at = now_hourly,
                    daily_reset_at = now_daily,
                    is_cooling = False,
                    cooling_until = None,
                    cooling_reason = None \<rparr>
      in (state, svc\<lparr> account_states := (account_states svc)(acc \<mapsto> state) \<rparr>))"

text \<open>
  \<^verbatim>\<open>_reset_counters_if_needed\<close>; \<^verbatim>\<open>now.replace(minute=0, second=0, microsecond=0)\<close>
  is the start of the hour of \<open>now\<close>.
\<close>

definition reset_counters_if_needed :: "AccountScheduleState \<Rightarrow> datetime \<Rightarrow> AccountScheduleState" where
  "reset_counters_if_needed state now =
     (let s1 = (if now \<ge> hourly_reset_at state + timedelta_hours 1
                then state\<lparr> hourly_actions := Map.empty,
                            hourly_reset_at := now - now mod timedelta_hours 1 \<rparr>
                else state)
      in if now \<ge> daily_reset_at s1 + timedelta_days 1
         then s1\<lparr> daily_actions := Map.empty,
                  daily_reset_at := now - now mod timedelta_days 1 \<rparr>
         else s1)"

text \<open>
  The second component of the result of \<^verbatim>\<open>can_execute_action\<close>, when it is not
  \<^verbatim>\<open>None\<close>. \<open>denial_text\<close> is the string of the source; \<^verbatim>\<open>str\<close> of a datetime
  and the format \<^verbatim>\<open>.0f\<close> of the elapsed seconds are Python's, and are arguments.
\<close>

datatype denial =
    Account_not_registered
  | Account_cooling_until datetime
  | Hourly_limit_reached int int
  | Daily_limit_reached int int
  | Min_interval_not_met timedelta int

fun denial_text :: "(datetime \<Rightarrow> string) \<Rightarrow> (timedelta \<Rightarrow> string) \<Rightarrow> denial \<Rightarrow> string" where
  "denial_text str_datetime format_0f Account_not_registered = ''Account not registered''"
| "denial_text str_datetime format_0f (Account_cooling_until t) =
     ''Account cooling until '' @ str_datetime t"
| "denial_text str_datetime format_0f (Hourly_limit_reached n l) =
     ''Hourly limit reached ('' @ str_int n @ ''/'' @ str_int l @ '')''"
| "denial_text str_datetime format_0f (Daily_limit_reached n l) =
     ''Daily limit reached ('' @ str_int n @ ''/'' @ str_int l @ '')''"
| "denial_text str_datetime format_0f (Min_interval_not_met elapsed m) =
     ''Min interval not met ('' @ format_0f elapsed @ ''s < '' @ str_int m @ ''s)''"

text \<open>\<^verbatim>\<open>d.get(k, 0)\<close> on a counter.\<close>

definition get0 :: "('k \<rightharpoonup> int) \<Rightarrow> 'k \<Rightarrow> int" where
  "get0 d k = (case d k of None \<Rightarrow> 0 | Some n \<Rightarrow> n)"

text \<open>
  The checks of \<^verbatim>\<open>can_execute_action\<close> on a state that is not cooling (or no longer):
  the limits of the platform, the counters after their reset, the minimum interval.
  The elapsed time is compared exactly, in microseconds.
\<close>

definition check_limits ::
  "(string \<rightharpoonup> (ActionType \<rightharpoonup> RateLimitConfig)) \<Rightarrow> AccountScheduleState \<Rightarrow> ActionType \<Rightarrow> string
     \<Rightarrow> datetime \<Rightarrow> (bool \<times> denial option) \<times> AccountScheduleState" where
  "check_limits limits_by_platform state a platform now =
     (let limits = (case limits_by_platform platform of None \<Rightarrow> Map.empty | Some l \<Rightarrow> l)
      in case limits a of
           None \<Rightarrow> ((True, None), state)
         | Some config \<Rightarrow>
             (let st = reset_counters_if_needed state now;
                  hourly_count = get0 (hourly_actions st) a;
                  hourly_lim = get_limit_for_age config (age_category st) ''hourly'';
                  daily_count = get0 (daily_actions st) a;
                  daily_lim = get_limit_for_age config (age_category st) ''daily''
              in if hourly_count \<ge> hourly_lim
                 then ((False, Some (Hourly_limit_reached hourly_count hourly_lim)), st)
                 else if daily_count \<ge> daily_lim
                 then ((False, Some (Daily_limit_reached daily_count daily_lim)), st)
                 else (case last_action_at st a of
                         None \<Rightarrow> ((True, None), st)
                       | Some last_action \<Rightarrow>
                           if now - last_action < timedelta_seconds (min_interval_seconds config)
                           then ((False, Some (Min_interval_not_met (now - last_action)
                                                 (min_interval_seconds config))), st)
                           else ((True, None), st))))"

text \<open>
  The cooling check of \<^verbatim>\<open>can_execute_action\<close>: the end of the cooling when the
  account is cooling and that end is set and in the future.
\<close>

definition cooling_blocks :: "AccountScheduleState \<Rightarrow> datetime \<Rightarrow> datetime option" where
  "cooling_blocks state now =
     (if is_cooling state
      then (case cooling_until state of
              None \<Rightarrow> None
            | Some u \<Rightarrow> if u > now then Some u else None)
      else None)"

definition can_execute_action ::
  "SmartSchedulerService \<Rightarrow> string \<Rightarrow> ActionType \<Rightarrow> string \<Rightarrow> datetime
     \<Rightarrow> (bool \<times> denial option) \<times> SmartSchedulerService" where
  "can_execute_action svc acc a platform now =
     (case account_states svc acc of
        None \<Rightarrow> ((False, Some Account_not_registered), svc)
      | Some state \<Rightarrow>
          (case cooling_blocks state now of
             Some u \<Rightarrow> ((False, Some (Account_cooling_until u)), svc)
           | None \<Rightarrow>
               (let st0 = (if is_cooling state
                           then state\<lparr> is_cooling := False, cooling_until := None \<rparr>
                           else state);
                    (res, st) = check_limits (rate_limits svc) st0 a platform now
                in (res, svc\<lparr> account_states := (account_states svc)(acc \<mapsto> st) \<rparr>))))"

definition record_action ::
  "SmartSchedulerService \<Rightarrow> string \<Rightarrow> ActionType \<Rightarrow> bool \<Rightarrow> datetime \<Rightarrow> SmartSchedulerService" where
  "record_action svc acc a success now =
     (case account_states svc acc of
        None \<Rightarrow> svc
      | Some state \<Rightarrow>
          (let s1 = state\<lparr> last_action_at := (last_action_at state)(a \<mapsto> now) \<rparr>;
               s2 = (if success
                     then s1\<lparr> hourly_actions := (hourly_actions s1)(a \<mapsto> get0 (hourly_actions s1) a + 1),
                              daily_actions := (daily_actions s1)(a \<mapsto> get0 (daily_actions s1) a + 1) \<rparr>
                     else s1)
           in svc\<lparr> account_states := (account_states svc)(acc \<mapsto> s2) \<rparr>))"

definition set_account_cooling ::
  "SmartSchedulerService \<Rightarrow> string \<Rightarrow> int \<Rightarrow> string option \<Rightarrow> datetime \<Rightarrow> SmartSchedulerService" where
  "set_account_cooling svc acc duration_minutes reason now =
     (case account_states svc acc of
        None \<Rightarrow> svc
      | Some state \<Rightarrow>
          svc\<lparr> account_states := (account_states svc)(acc \<mapsto>
                 state\<lparr> is_cooling := True,
                        cooling_until := Some (now + timedelta_minutes duration_minutes),
                        cooling_reason := reason \<rparr>) \<rparr>)"

text \<open>\<^verbatim>\<open>record_action\<close> called \<open>n\<close> times, at the times of the list.\<close>

fun record_actions ::
  "SmartSchedulerService \<Rightarrow> string \<Rightarrow> ActionType \<Rightarrow> bool \<Rightarrow> datetime list \<Rightarrow> SmartSchedulerService" where
  "record_actions svc acc a success [] = svc"
| "record_actions svc acc a success (now # nows) =
     record_actions (record_action svc acc a success now) acc a success nows"

section \<open>The proxy pool (\<^verbatim>\<open>proxy_pool_service.py\<close>)\<close>

datatype ProxyType = HTTP | HTTPS | SOCKS5

datatype ProxyStatus = ACTIVE | SLOW | FAILED | BANNED | COOLING

datatype ProxyQuality = RESIDENTIAL | DATACENTER | MOBILE

record ProxyConfig =
  px_id :: string
  host :: string
  port :: int
  username :: "string option"
  password :: "string option"
  proxy_type :: ProxyType
  quality :: ProxyQuality
  country :: "string option"
  city :: "string option"
  isp :: "string option"
  px_status :: ProxyStatus
  avg_response_time_ms :: rat
  success_rate :: rat
  total_requests :: int
  failed_requests :: int
  last_used_at :: "datetime option"
  last_check_at :: "datetime option"
  px_cooling_until :: "datetime option"
  assigned_to_account_id :: "string option"

datatype pool_error = NoAvailableProxyError | TypeError

text \<open>
  The service. \<^verbatim>\<open>_proxies\<close> is a dictionary that is iterated, so it is an
  association list in the order of insertion, with every key once; the lookups are
  \<^const>\<open>map_of\<close>, a store is \<^const>\<open>AList.update\<close> (in place for a key that is
  present, at the end for a new one). A \<^verbatim>\<open>ProxyConfig\<close> is an object held by this
  dictionary only: a mutation of the object found under a key is a store under that key.
\<close>

record ProxyPoolService =
  proxies :: "(string \<times> ProxyConfig) list"
  account_proxy_map :: "string \<rightharpoonup> string"
  check_url :: string
  check_timeout :: rat
  cooling_duration :: timedelta
  max_consecutive_failures :: int

definition ProxyPoolService_init :: ProxyPoolService where
  "ProxyPoolService_init =
     \<lparr> proxies = [], account_proxy_map = Map.empty,
       check_url = ''https://httpbin.org/ip'', check_timeout = 10,
       cooling_duration = timedelta_minutes 30, max_consecutive_failures = 3 \<rparr>"

text \<open>The default values of the dataclass \<^verbatim>\<open>ProxyConfig\<close>.\<close>

definition ProxyConfig_init :: "string \<Rightarrow> string \<Rightarrow> int \<Rightarrow> ProxyConfig" where
  "ProxyConfig_init i h p =
     \<lparr> px_id = i, host = h, port = p, username = None, password = None,
       proxy_type = HTTP, quality = RESIDENTIAL, country = None, city = None, isp = None,
       px_status = ACTIVE, avg_response_time_ms = 0, success_rate = 1,
       total_requests = 0, failed_requests = 0, last_used_at = None, last_check_at = None,
       px_cooling_until = None, assigned_to_account_id = None \<rparr>"

text \<open>The truth value of an optional string: neither \<^verbatim>\<open>None\<close> nor empty.\<close>

definition truthy :: "string option \<Rightarrow> bool" where
  "truthy v \<longleftrightarrow> (case v of None \<Rightarrow> False | Some s \<Rightarrow> s \<noteq> [])"

definition add_proxy :: "ProxyPoolService \<Rightarrow> ProxyConfig \<Rightarrow> ProxyPoolService" where
  "add_proxy svc proxy = svc\<lparr> proxies := AList.update (px_id proxy) proxy (proxies svc) \<rparr>"

definition remove_proxy :: "ProxyPoolService \<Rightarrow> string \<Rightarrow> bool \<times> ProxyPoolService" where
  "remove_proxy svc proxy_id =
     (case map_of (proxies svc) proxy_id of
        None \<Rightarrow> (False, svc)
      | Some _ \<Rightarrow>
          (True, svc\<lparr> proxies := AList.delete proxy_id (proxies svc),
                      account_proxy_map :=
                        (\<lambda>k. case account_proxy_map svc k of
                                None \<Rightarrow> None
                              | Some v \<Rightarrow> if v \<noteq> proxy_id then Some v else None) \<rparr>))"

definition get_proxy :: "ProxyPoolService \<Rightarrow> string \<Rightarrow> ProxyConfig option" where
  "get_proxy svc proxy_id = map_of (proxies svc) proxy_id"

text \<open>
  The loop of \<^verbatim>\<open>get_available_proxies\<close> over the proxies in their order: the
  proxies it appends, and the dictionary after the loop (a proxy whose cooling has ended
  is set to \<open>ACTIVE\<close> before the filters are applied to it).
\<close>

fun available_loop ::
  "string option \<Rightarrow> ProxyQuality option \<Rightarrow> bool \<Rightarrow> datetime \<Rightarrow> (string \<times> ProxyConfig) list
     \<Rightarrow> ProxyConfig list \<times> (string \<times> ProxyConfig) list" where
  "available_loop ctry qual exclude_assigned now [] = ([], [])"
| "available_loop ctry qual exclude_assigned now ((k, proxy) # rest) =
     (let (available, rest') = available_loop ctry qual exclude_assigned now rest
      in if px_status proxy = BANNED then (available, (k, proxy) # rest')
         else if px_status proxy = COOLING
                 \<and> (case px_cooling_until proxy of None \<Rightarrow> False | Some u \<Rightarrow> u > now)
         then (available, (k, proxy) # rest')
         else
           (let proxy' = (if px_status proxy = COOLING then proxy\<lparr> px_status := ACTIVE \<rparr> else proxy)
            in if truthy ctry \<and> country proxy' \<noteq> ctry then (available, (k, proxy') # rest')
               else if qual \<noteq> None \<and> Some (quality proxy') \<noteq> qual then (available, (k, proxy') # rest')
               else if exclude_assigned \<and> truthy (assigned_to_account_id proxy')
               then (available, (k, proxy') # rest')
               else (proxy' # available, (k, proxy') # rest')))"

definition get_available_proxies ::
  "ProxyPoolService \<Rightarrow> string option \<Rightarrow> ProxyQuality option \<Rightarrow> bool \<Rightarrow> datetime
     \<Rightarrow> ProxyConfig list \<times> ProxyPoolService" where
  "get_available_proxies svc ctry qual exclude_assigned now =
     (let (available, proxies') = available_loop ctry qual exclude_assigned now (proxies svc)
      in (available, svc\<lparr> proxies := proxies' \<rparr>))"

text \<open>
  \<^verbatim>\<open>get_best_proxy\<close>: the sort of Python is stable, as \<^const>\<open>sort_key\<close> is, and the
  key is the pair (\<open>-success_rate\<close>, \<open>avg_response_time_ms\<close>) in its lexicographic order.
\<close>

definition get_best_proxy ::
  "ProxyPoolService \<Rightarrow> string option \<Rightarrow> ProxyQuality option \<Rightarrow> datetime
     \<Rightarrow> (pool_error + ProxyConfig) \<times> ProxyPoolService" where
  "get_best_proxy svc ctry qual now =
     (let (available, svc') = get_available_proxies svc ctry qual False now
      in if available = [] then (Inl NoAvailableProxyError, svc')
         else (Inr (hd (sort_key (\<lambda>p. (- success_rate p, avg_response_time_ms p)) available)), svc'))"

definition get_random_proxy ::
  "ProxyPoolService \<Rightarrow> string option \<Rightarrow> ProxyQuality option \<Rightarrow> rng \<Rightarrow> datetime
     \<Rightarrow> (pool_error + ProxyConfig) \<times> ProxyPoolService" where
  "get_random_proxy svc ctry qual rnd now =
     (let (available, svc') = get_available_proxies svc ctry qual False now
      in if available = [] then (Inl NoAvailableProxyError, svc')
         else (Inr (random_choice (rnd 0) available), svc'))"

text \<open>
  \<^verbatim>\<open>assign_proxy_to_account\<close>. Its last branch calls
  \<^verbatim>\<open>self.get_best_proxy(country=country, exclude_assigned=True)\<close>, and
  \<^verbatim>\<open>get_best_proxy\<close> has the parameters \<^verbatim>\<open>country\<close> and \<^verbatim>\<open>quality\<close> only:
  the call raises \<^verbatim>\<open>TypeError\<close> before the body of \<^verbatim>\<open>get_best_proxy\<close> runs.
\<close>

definition assign_proxy_to_account ::
  "ProxyPoolService \<Rightarrow> string \<Rightarrow> string option \<Rightarrow> string option
     \<Rightarrow> (pool_error + ProxyConfig) \<times> ProxyPoolService" where
  "assign_proxy_to_account svc acc proxy_id ctry =
     (case (case account_proxy_map svc acc of
              None \<Rightarrow> None
            | Some existing_proxy_id \<Rightarrow> map_of (proxies svc) existing_proxy_id) of
        Some existing \<Rightarrow> (Inr existing, svc)
      | None \<Rightarrow>
          (case (case proxy_id of
                   None \<Rightarrow> None
                 | Some pid \<Rightarrow>
                     if pid \<noteq> [] then map_option (Pair pid) (map_of (proxies svc) pid) else None) of
             Some (pid, proxy) \<Rightarrow>
               (let proxy' = proxy\<lparr> assigned_to_account_id := Some acc \<rparr>
                in (Inr proxy',
                    svc\<lparr> proxies := AList.update pid proxy' (proxies svc),
                         account_proxy_map := (account_proxy_map svc)(acc \<mapsto> px_id proxy') \<rparr>))
           | None \<Rightarrow> (Inl TypeError, svc)))"

definition get_account_proxy :: "ProxyPoolService \<Rightarrow> string \<Rightarrow> ProxyConfig option" where
  "get_account_proxy svc acc =
     (case account_proxy_map svc acc of
        None \<Rightarrow> None
      | Some proxy_id \<Rightarrow> if proxy_id \<noteq> [] then map_of (proxies svc) proxy_id else None)"

definition release_account_proxy :: "ProxyPoolService \<Rightarrow> string \<Rightarrow> bool \<times> ProxyPoolService" where
  "release_account_proxy svc acc =
     (case account_proxy_map svc acc of
        None \<Rightarrow> (False, svc)
      | Some proxy_id \<Rightarrow>
          (True,
           svc\<lparr> account_proxy_map := (account_proxy_map svc)(acc := None),
                proxies :=
                  (case map_of (proxies svc) proxy_id of
                     None \<Rightarrow> proxies svc
                   | Some proxy \<Rightarrow>
                       AList.update proxy_id (proxy\<lparr> assigned_to_account_id := None \<rparr>) (proxies svc)) \<rparr>))"

definition rotate_account_proxy ::
  "ProxyPoolService \<Rightarrow> string \<Rightarrow> string option \<Rightarrow> (pool_error + ProxyConfig) \<times> ProxyPoolService" where
  "rotate_account_proxy svc acc ctry =
     assign_proxy_to_account (snd (release_account_proxy svc acc)) acc None ctry"

definition mark_proxy_banned :: "ProxyPoolService \<Rightarrow> string \<Rightarrow> bool \<times> ProxyPoolService" where
  "mark_proxy_banned svc proxy_id =
     (case get_proxy svc proxy_id of
        None \<Rightarrow> (False, svc)
      | Some proxy \<Rightarrow>
          (True, svc\<lparr> proxies := AList.update proxy_id (proxy\<lparr> px_status := BANNED \<rparr>) (proxies svc) \<rparr>))"

section \<open>Follow-back detection (\<^verbatim>\<open>follow_back_detector_service.py\<close>)\<close>

datatype FollowStatus = NOT_FOLLOWING | FOLLOWING | MUTUAL | PENDING | BLOCKED

text \<open>
  A value of the dictionary \<^verbatim>\<open>metadata\<close>; \<open>Meta_isoformat t\<close> is the string
  \<^verbatim>\<open>t.isoformat()\<close>, which is never empty.
\<close>

datatype meta_value = Meta_bool bool | Meta_str string | Meta_isoformat datetime

fun meta_truthy :: "meta_value \<Rightarrow> bool" where
  "meta_truthy (Meta_bool b) = b"
| "meta_truthy (Meta_str s) = (s \<noteq> [])"
| "meta_truthy (Meta_isoformat t) = True"

record FollowRelationship =
  rel_id :: string
  sub_account_id :: string
  target_user_id :: string
  target_username :: string
  rel_status :: FollowStatus
  followed_at :: "datetime option"
  follow_back_at :: "datetime option"
  unfollow_at :: "datetime option"
  timeout_at :: "datetime option"
  check_count :: int
  last_checked_at :: "datetime option"
  is_private_account :: bool
  rel_metadata :: "string \<rightharpoonup> meta_value"

record DetectionResult =
  relationship_id :: string
  previous_status :: FollowStatus
  current_status :: FollowStatus
  changed :: bool
  checked_at :: datetime
  should_unfollow :: bool
  should_dm :: bool
  error_message :: "string option"

text \<open>
  The service: \<^verbatim>\<open>_relationships\<close>, a dictionary that is iterated (an association
  list, as the proxies are), and \<^verbatim>\<open>_timeout_days\<close>. The automation executor is a
  collaborator; what it does is an argument of \<open>process_timeouts\<close>.
\<close>

record FollowBackDetectorService =
  relationships :: "(string \<times> FollowRelationship) list"
  timeout_days :: int

definition FollowBackDetectorService_init :: FollowBackDetectorService where
  "FollowBackDetectorService_init = \<lparr> relationships = [], timeout_days = 7 \<rparr>"

definition set_timeout_days :: "FollowBackDetectorService \<Rightarrow> int \<Rightarrow> FollowBackDetectorService" where
  "set_timeout_days svc days = svc\<lparr> timeout_days := days \<rparr>"

definition relationship_key :: "string \<Rightarrow> string \<Rightarrow> string" where
  "relationship_key sub_acc target = sub_acc @ ''_'' @ target"

text \<open>
  \<^verbatim>\<open>register_follow\<close> reads the clock twice: for \<^verbatim>\<open>followed_at\<close> and for
  \<^verbatim>\<open>timeout_at\<close>.
\<close>

definition register_follow ::
  "FollowBackDetectorService \<Rightarrow> string \<Rightarrow> string \<Rightarrow> string \<Rightarrow> bool \<Rightarrow> datetime \<Rightarrow> datetime
     \<Rightarrow> FollowRelationship \<times> FollowBackDetectorService" where
  "register_follow svc sub_acc target uname is_private now1 now2 =
     (let relationship_id = relationship_key sub_acc target;
          rel =
            (case map_of (relationships svc) relationship_id of
               Some old \<Rightarrow>
                 old\<lparr> rel_status := (if is_private then PENDING else FOLLOWING),
                      followed_at := Some now1,
                      timeout_at := Some (now2 + timedelta_days (timeout_days svc)) \<rparr>
             | None \<Rightarrow>
                 \<lparr> rel_id = relationship_id,
                   sub_account_id = sub_acc,
                   target_user_id = target,
                   target_username = uname,
                   rel_status = (if is_private then PENDING else FOLLOWING),
                   followed_at = Some now1,
                   follow_back_at = None,
                   unfollow_at = None,
                   timeout_at = Some (now2 + timedelta_days (timeout_days svc)),
                   check_count = 0,
                   last_checked_at = None,
                   is_private_account = is_private,
                   rel_metadata = Map.empty \<rparr>)
      in (rel, svc\<lparr> relationships := AList.update relationship_id rel (relationships svc) \<rparr>))"

definition get_relationship ::
  "FollowBackDetectorService \<Rightarrow> string \<Rightarrow> string \<Rightarrow> FollowRelationship option" where
  "get_relationship svc sub_acc target = map_of (relationships svc) (relationship_key sub_acc target)"

definition get_timeout_relationships ::
  "FollowBackDetectorService \<Rightarrow> string option \<Rightarrow> datetime \<Rightarrow> FollowRelationship list" where
  "get_timeout_relationships svc sub_acc now =
     filter (\<lambda>rel. rel_status rel = FOLLOWING
                  \<and> \<not> (truthy sub_acc \<and> Some (sub_account_id rel) \<noteq> sub_acc)
                  \<and> (case timeout_at rel of None \<Rightarrow> False | Some t \<Rightarrow> t \<le> now))
       (map snd (relationships svc))"

text \<open>
  What \<^verbatim>\<open>_check_follower_status\<close> does: it answers, or it raises. In the source it is
  a mock that answers \<^verbatim>\<open>False\<close> (the place where the browser automation is to look
  at the follower list); \<open>check_follow_back_with\<close> takes the outcome of the probe as an
  argument, and \<open>check_follow_back\<close> is the source's, with its mock.
\<close>

datatype probe_outcome = Answers bool | Raises string

definition check_follower_status :: "string \<Rightarrow> string \<Rightarrow> probe_outcome" where
  "check_follower_status sub_acc target = Answers False"

text \<open>
  \<^verbatim>\<open>check_follow_back\<close> on a relationship: the result and the relationship after the
  call. The clock is read for \<^verbatim>\<open>checked_at\<close> of the result, for
  \<^verbatim>\<open>last_checked_at\<close>, and then once more, for \<^verbatim>\<open>follow_back_at\<close> or for the
  comparison with \<^verbatim>\<open>timeout_at\<close>.
\<close>

definition check_follow_back_with ::
  "probe_outcome \<Rightarrow> FollowRelationship \<Rightarrow> datetime \<Rightarrow> datetime \<Rightarrow> datetime
     \<Rightarrow> DetectionResult \<times> FollowRelationship" where
  "check_follow_back_with probe relationship now0 now1 now2 =
     (let result = \<lparr> relationship_id = rel_id relationship,
                     previous_status = rel_status relationship,
                     current_status = rel_status relationship,
                     changed = False,
                     checked_at = now0,
                     should_unfollow = False,
                     should_dm = False,
                     error_message = None \<rparr>
      in case probe of
           Raises e \<Rightarrow> (result\<lparr> error_message := Some e \<rparr>, relationship)
         | Answers is_following_back \<Rightarrow>
             (let rel1 = relationship\<lparr> check_count := check_count relationship + 1,
                                       last_checked_at := Some now1 \<rparr>
              in if is_following_back
                 then (if rel_status rel1 \<noteq> MUTUAL
                       then (result\<lparr> current_status := MUTUAL, changed := True, should_dm := True \<rparr>,
                             rel1\<lparr> rel_status := MUTUAL, follow_back_at := Some now2 \<rparr>)
                       else (result, rel1))
                 else (if (case timeout_at rel1 of None \<Rightarrow> False | Some t \<Rightarrow> now2 \<ge> t)
                       then (result\<lparr> should_unfollow := True \<rparr>, rel1)
                       else (result, rel1))))"

definition check_follow_back ::
  "FollowRelationship \<Rightarrow> datetime \<Rightarrow> datetime \<Rightarrow> datetime \<Rightarrow> DetectionResult \<times> FollowRelationship" where
  "check_follow_back relationship now0 now1 now2 =
     check_follow_back_with
       (check_follower_status (sub_account_id relationship) (target_user_id relationship))
       relationship now0 now1 now2"

text \<open>
  A run of checks of one relationship, each with the outcome of its probe and its three
  clock reads: the results, and the relationship after the last check.
\<close>

fun check_follow_back_run ::
  "FollowRelationship \<Rightarrow> (probe_outcome \<times> datetime \<times> datetime \<times> datetime) list
     \<Rightarrow> DetectionResult list \<times> FollowRelationship" where
  "check_follow_back_run relationship [] = ([], relationship)"
| "check_follow_back_run relationship ((probe, now0, now1, now2) # rest) =
     (let (result, rel1) = check_follow_back_with probe relationship now0 now1 now2;
          (results, rel2) = check_follow_back_run rel1 rest
      in (result # results, rel2))"

text \<open>
  The check of a relationship of the service (the objects that \<^verbatim>\<open>check_batch\<close> takes
  from \<^verbatim>\<open>_relationships\<close>): the relationship found under the key is checked and
  stored back.
\<close>

definition check_stored ::
  "FollowBackDetectorService \<Rightarrow> string \<Rightarrow> probe_outcome \<Rightarrow> datetime \<Rightarrow> datetime \<Rightarrow> datetime
     \<Rightarrow> DetectionResult option \<times> FollowBackDetectorService" where
  "check_stored svc key probe now0 now1 now2 =
     (case map_of (relationships svc) key of
        None \<Rightarrow> (None, svc)
      | Some relationship \<Rightarrow>
          (let (result, rel') = check_follow_back_with probe relationship now0 now1 now2
           in (Some result, svc\<lparr> relationships := AList.update key rel' (relationships svc) \<rparr>)))"

text \<open>
  \<^verbatim>\<open>process_timeouts\<close>: \<open>unfollow_raises\<close> tells for which relationship (by its key)
  the unfollow of the executor raises, and \<open>clock\<close> is the time read for
  \<^verbatim>\<open>unfollow_at\<close> of a relationship. The result is the user names unfollowed.
\<close>

fun process_timeouts_loop ::
  "string option \<Rightarrow> (string \<Rightarrow> bool) \<Rightarrow> (string \<Rightarrow> datetime) \<Rightarrow> datetime
     \<Rightarrow> (string \<times> FollowRelationship) list \<Rightarrow> string list \<times> (string \<times> FollowRelationship) list" where
  "process_timeouts_loop sub_acc unfollow_raises clock now [] = ([], [])"
| "process_timeouts_loop sub_acc unfollow_raises clock now ((k, rel) # rest) =
     (let (unfollowed, rest') = process_timeouts_loop sub_acc unfollow_raises clock now rest
      in if rel_status rel = FOLLOWING
            \<and> \<not> (truthy sub_acc \<and> Some (sub_account_id rel) \<noteq> sub_acc)
            \<and> (case timeout_at rel of None \<Rightarrow> False | Some t \<Rightarrow> t \<le> now)
            \<and> \<not> unfollow_raises k
         then (target_username rel # unfollowed,
               (k, rel\<lparr> rel_status := NOT_FOLLOWING, unfollow_at := Some (clock k) \<rparr>) # rest')
         else (unfollowed, (k, rel) # rest'))"

definition process_timeouts ::
  "FollowBackDetectorService \<Rightarrow> string \<Rightarrow> (string \<Rightarrow> bool) \<Rightarrow> (string \<Rightarrow> datetime) \<Rightarrow> datetime
     \<Rightarrow> string list \<times> FollowBackDetectorService" where
  "process_timeouts svc sub_acc unfollow_raises clock now =
     (let (unfollowed, rels') =
            process_timeouts_loop (Some sub_acc) unfollow_raises clock now (relationships svc)
      in (unfollowed, svc\<lparr> relationships := rels' \<rparr>))"

definition get_mutual_followers ::
  "FollowBackDetectorService \<Rightarrow> string \<Rightarrow> FollowRelationship list" where
  "get_mutual_followers svc sub_acc =
     filter (\<lambda>rel. sub_account_id rel = sub_acc \<and> rel_status rel = MUTUAL)
       (map snd (relationships svc))"

text \<open>\<^verbatim>\<open>rel.metadata.get("dm_sent", False)\<close>, as a truth value.\<close>

definition dm_sent :: "FollowRelationship \<Rightarrow> bool" where
  "dm_sent rel = (case rel_metadata rel ''dm_sent'' of None \<Rightarrow> False | Some v \<Rightarrow> meta_truthy v)"

definition get_dm_ready_targets ::
  "FollowBackDetectorService \<Rightarrow> string \<Rightarrow> FollowRelationship list" where
  "get_dm_ready_targets svc sub_acc =
     filter (\<lambda>rel. \<not> dm_sent rel) (get_mutual_followers svc sub_acc)"

definition mark_dm_sent ::
  "FollowBackDetectorService \<Rightarrow> string \<Rightarrow> datetime \<Rightarrow> bool \<times> FollowBackDetectorService" where
  "mark_dm_sent svc key now =
     (case map_of (relationships svc) key of
        None \<Rightarrow> (False, svc)
      | Some rel \<Rightarrow>
          (True,
           svc\<lparr> relationships :=
                  AList.update key
                    (rel\<lparr> rel_metadata := (rel_metadata rel)(''dm_sent'' \<mapsto> Meta_bool True,
                                                              ''dm_sent_at'' \<mapsto> Meta_isoformat now) \<rparr>)
                    (relationships svc) \<rparr>))"

section \<open>Conversation flows (\<^verbatim>\<open>conversation_flow_service.py\<close>)\<close>

datatype ConversationIntent =
  GREETING | INTEREST | QUESTION | OBJECTION | POSITIVE | NEGATIVE | REQUEST_HUMAN | SPAM | UNKNOWN

fun intent_value :: "ConversationIntent \<Rightarrow> string" where
  "intent_value GREETING = ''greeting''"
| "intent_value INTEREST = ''interest''"
| "intent_value QUESTION = ''question''"
| "intent_value OBJECTION = ''objection''"
| "intent_value POSITIVE = ''positive''"
| "intent_value NEGATIVE = ''negative''"
| "intent_value REQUEST_HUMAN = ''request_human''"
| "intent_value SPAM = ''spam''"
| "intent_value UNKNOWN = ''unknown''"

datatype FlowNodeType = START | MESSAGE | CONDITION | DELAY | HUMAN_HANDOFF | END

record FlowNode =
  node_id :: string
  node_type :: FlowNodeType
  node_content :: "string option"
  template_id :: "string option"
  delay_seconds :: int
  next_nodes :: "string \<rightharpoonup> string"
  default_next :: "string option"
  node_metadata :: "string \<rightharpoonup> string"

record ConversationFlow =
  cf_id :: string
  cf_name :: string
  description :: string
  nodes :: "string \<rightharpoonup> FlowNode"
  start_node_id :: string
  cf_variables :: "(string \<times> string) list"
  cf_platform :: string
  is_active :: bool
  cf_created_at :: datetime

record ConversationState =
  conversation_id :: string
  flow_id :: string
  current_node_id :: string
  cs_variables :: "(string \<times> string) list"
  message_count :: int
  failed_intents :: int
  started_at :: datetime
  last_activity :: datetime

record FlowResponse =
  should_respond :: bool
  response_text :: "string option"
  next_node_id :: "string option"
  detected_intent :: ConversationIntent
  requires_human :: bool
  end_conversation :: bool
  fr_delay_seconds :: int
  fr_metadata :: "(string \<times> string) list"

text \<open>\<^verbatim>\<open>FlowResponse(should_respond=b)\<close>: the defaults of the dataclass.\<close>

definition FlowResponse_init :: "bool \<Rightarrow> FlowResponse" where
  "FlowResponse_init b =
     \<lparr> should_respond = b, response_text = None, next_node_id = None,
       detected_intent = UNKNOWN, requires_human = False, end_conversation = False,
       fr_delay_seconds = 0, fr_metadata = [] \<rparr>"

record ConversationFlowService =
  spintax_service :: "SpintaxService option"
  flows :: "string \<rightharpoonup> ConversationFlow"
  states :: "string \<rightharpoonup> ConversationState"

definition add_flow :: "ConversationFlowService \<Rightarrow> ConversationFlow \<Rightarrow> ConversationFlowService" where
  "add_flow svc flow = svc\<lparr> flows := (flows svc)(cf_id flow \<mapsto> flow) \<rparr>"

subsection \<open>The patterns of \<^verbatim>\<open>detect_intent\<close>\<close>

text \<open>
  The regular expressions of \<^verbatim>\<open>INTENT_PATTERNS\<close> use literals, alternation,
  sequence, a starred character class, \<^verbatim>\<open>\b\<close>, \<^verbatim>\<open>^\<close> and \<^verbatim>\<open>$\<close>. A position
  in the text is the character before it (if any) and the text from it on;
  \<open>rx_match r pos\<close> lists the positions at which a match of \<open>r\<close> that starts at
  \<open>pos\<close> can end, and \<^verbatim>\<open>re.search\<close> succeeds when some match starts at some
  position. The flag \<^verbatim>\<open>re.IGNORECASE\<close> changes nothing on a text that is already in
  lower case. \<open>Never\<close> stands for the third pattern of \<open>POSITIVE\<close>, an alternation of
  emoji: none of its characters has a code point below 256.
\<close>

datatype regex =
    Lit string
  | Char_star "char \<Rightarrow> bool"
  | Alt regex regex
  | Seq regex regex
  | Word_boundary
  | Text_start
  | Text_end
  | Never

text \<open>\<^verbatim>\<open>\w\<close> of a \<^verbatim>\<open>str\<close> pattern, on the code points below 256.\<close>

definition is_word_char :: "char \<Rightarrow> bool" where
  "is_word_char c \<longleftrightarrow>
     (let n = (of_char c :: nat)
      in (48 \<le> n \<and> n \<le> 57) \<or> (65 \<le> n \<and> n \<le> 90) \<or> n = 95 \<or> (97 \<le> n \<and> n \<le> 122)
         \<or> n = 170 \<or> n = 178 \<or> n = 179 \<or> n = 181 \<or> n = 185 \<or> n = 186
         \<or> (188 \<le> n \<and> n \<le> 190) \<or> (192 \<le> n \<and> n \<le> 214) \<or> (216 \<le> n \<and> n \<le> 246)
         \<or> 248 \<le> n)"

definition word_before :: "char option \<Rightarrow> bool" where
  "word_before prev = (case prev of None \<Rightarrow> False | Some c \<Rightarrow> is_word_char c)"

definition word_after :: "string \<Rightarrow> bool" where
  "word_after s = (case s of [] \<Rightarrow> False | c # _ \<Rightarrow> is_word_char c)"

fun star_ends :: "(char \<Rightarrow> bool) \<Rightarrow> char option \<Rightarrow> string \<Rightarrow> (char option \<times> string) list" where
  "star_ends P prev [] = [(prev, [])]"
| "star_ends P prev (c # cs) = (if P c then star_ends P (Some c) cs else []) @ [(prev, c # cs)]"

fun rx_match :: "regex \<Rightarrow> char option \<times> string \<Rightarrow> (char option \<times> string) list" where
  "rx_match (Lit w) (prev, s) =
     (if starts_with s w then [(if w = [] then prev else Some (last w), drop (length w) s)] else [])"
| "rx_match (Char_star P) (prev, s) = star_ends P prev s"
| "rx_match (Alt a b) pos = rx_match a pos @ rx_match b pos"
| "rx_match (Seq a b) pos = concat (map (rx_match b) (rx_match a pos))"
| "rx_match Word_boundary (prev, s) = (if word_before prev \<noteq> word_after s then [(prev, s)] else [])"
| "rx_match Text_start (prev, s) = (if prev = None then [(prev, s)] else [])"
| "rx_match Text_end (prev, s) = (if s = [] \<or> s = [CHR 0x0A] then [(prev, s)] else [])"
| "rx_match Never pos = []"

fun search_from :: "regex \<Rightarrow> char option \<Rightarrow> string \<Rightarrow> bool" where
  "search_from r prev [] = (rx_match r (prev, []) \<noteq> [])"
| "search_from r prev (c # cs) = (rx_match r (prev, c # cs) \<noteq> [] \<or> search_from r (Some c) cs)"

definition re_search :: "regex \<Rightarrow> string \<Rightarrow> bool" where
  "re_search r s = search_from r None s"

definition alts :: "string list \<Rightarrow> regex" where
  "alts ws = foldr (\<lambda>w r. Alt (Lit w) r) ws Never"

text \<open>\<^verbatim>\<open>\b(w1|w2|...)\b\<close>.\<close>

definition words :: "string list \<Rightarrow> regex" where
  "words ws = Seq Word_boundary (Seq (alts ws) Word_boundary)"

definition any_but_newline :: "char \<Rightarrow> bool" where
  "any_but_newline c \<longleftrightarrow> c \<noteq> CHR 0x0A"

definition INTENT_PATTERNS :: "(ConversationIntent \<times> regex list) list" where
  "INTENT_PATTERNS =
     [(GREETING,
         [words [''hi'', ''hello'', ''hey'', ''hola'', ''sup'', ''what's up'', ''whats up''],
          Seq Text_start (Seq (alts [''hi'', ''hello'', ''hey''])
            (Seq (Char_star isspace) (Seq (Char_star (\<lambda>c. c \<in> set ''!.?'')) Text_end)))]),
      (INTEREST,
         [words [''interested'', ''tell me more'', ''sounds good'', ''sounds interesting''],
          words [''want to know'', ''curious'', ''learn more''],
          words [''yes please'', ''sure'', ''definitely'', ''absolutely'']]),
      (POSITIVE,
         [words [''yes'', ''yeah'', ''yep'', ''yup'', ''ok'', ''okay'', ''sure'', ''great'', ''cool'',
                 ''nice'', ''awesome''],
          words [''thanks'', ''thank you'', ''appreciate''],
          Never]),
      (NEGATIVE,
         [words [''no'', ''nope'', ''not interested'', ''no thanks'', ''stop'', ''leave me alone''],
          words [''unsubscribe'', ''remove'', ''block'']]),
      (OBJECTION,
         [words [''why'', ''how'', ''what if'', ''but'', ''however'', ''scam'', ''fake'', ''spam''],
          words [''is this legit'', ''are you real'', ''prove it''],
          words [''too good to be true'', ''sounds fishy'']]),
      (QUESTION,
         [Seq (Lit ''?'') Text_end,
          Seq (words [''what'', ''who'', ''where'', ''when'', ''how'', ''why'', ''which''])
            (Seq (Char_star any_but_newline) (Lit ''?'')),
          words [''can you'', ''could you'', ''would you'']]),
      (REQUEST_HUMAN,
         [words [''real person'', ''human'', ''agent'', ''representative'', ''manager''],
          words [''speak to someone'', ''talk to'', ''connect me'']]),
      (SPAM,
         [words [''buy followers'', ''make money fast'', ''crypto giveaway''],
          alts [''bit.ly'', ''tinyurl.com'']])]"

definition NEGATIVE_KEYWORDS :: "string list" where
  "NEGATIVE_KEYWORDS =
     [''scam'', ''fraud'', ''report'', ''block'', ''lawsuit'',
      ''police'', ''complaint'', ''harassment'', ''stop messaging'']"

definition detect_intent :: "string \<Rightarrow> ConversationIntent" where
  "detect_intent message =
     (let message_lower = strip (lower message)
      in if list_ex (contains message_lower) NEGATIVE_KEYWORDS then REQUEST_HUMAN
         else (case find (\<lambda>(intent, patterns). list_ex (\<lambda>r. re_search r message_lower) patterns)
                      INTENT_PATTERNS of
                 Some (intent, _) \<Rightarrow> intent
               | None \<Rightarrow> UNKNOWN))"

subsection \<open>Conversations\<close>

datatype flow_error = ValueError string

text \<open>
  \<^verbatim>\<open>start_conversation\<close>; the clock is read for \<^verbatim>\<open>started_at\<close> and for
  \<^verbatim>\<open>last_activity\<close>.
\<close>

definition start_conversation ::
  "ConversationFlowService \<Rightarrow> string \<Rightarrow> string \<Rightarrow> (string \<times> string) list option
     \<Rightarrow> datetime \<Rightarrow> datetime \<Rightarrow> flow_error + ConversationState \<times> ConversationFlowService" where
  "start_conversation svc cid fid variables now1 now2 =
     (case flows svc fid of
        None \<Rightarrow> Inl (ValueError (''Flow not found: '' @ fid))
      | Some flow \<Rightarrow>
          (let state = \<lparr> conversation_id = cid,
                         flow_id = fid,
                         current_node_id = start_node_id flow,
                         cs_variables = (case variables of None \<Rightarrow> [] | Some vs \<Rightarrow> vs),
                         message_count = 0,
                         failed_intents = 0,
                         started_at = now1,
                         last_activity = now2 \<rparr>
           in Inr (state, svc\<lparr> states := (states svc)(cid \<mapsto> state) \<rparr>)))"

text \<open>
  \<^verbatim>\<open>_process_node\<close>: the response, and the spintax service after the call (a message
  generated from a template counts one more use of the template).
\<close>

definition handoff_text :: string where
  "handoff_text =
     ''I want to make sure I give you the best answer. Let me connect you with someone who can help!''"

definition process_node ::
  "SpintaxService option \<Rightarrow> FlowNode \<Rightarrow> ConversationState \<Rightarrow> rng \<Rightarrow> datetime
     \<Rightarrow> FlowResponse \<times> SpintaxService option" where
  "process_node sp node state rnd now =
     (case node_type node of
        END \<Rightarrow> ((FlowResponse_init False)\<lparr> end_conversation := True \<rparr>, sp)
      | HUMAN_HANDOFF \<Rightarrow>
          ((FlowResponse_init True)
             \<lparr> response_text :=
                 Some (replace_variables (case node_content node of None \<Rightarrow> [] | Some c \<Rightarrow> c)
                         (cs_variables state)),
               requires_human := True,
               next_node_id := Some (node_id node) \<rparr>, sp)
      | DELAY \<Rightarrow>
          ((FlowResponse_init False)
             \<lparr> fr_delay_seconds := delay_seconds node, next_node_id := default_next node \<rparr>, sp)
      | MESSAGE \<Rightarrow>
          (case (if truthy (template_id node) then sp else None) of
             Some spx \<Rightarrow>
               (let (generated, spx') =
                      generate_message spx (case template_id node of None \<Rightarrow> [] | Some t \<Rightarrow> t)
                        (cs_variables state) rnd now
                in ((FlowResponse_init True)
                      \<lparr> response_text :=
                          Some (case generated of None \<Rightarrow> [] | Some g \<Rightarrow> content g),
                        next_node_id := Some (node_id node) \<rparr>, Some spx'))
           | None \<Rightarrow>
               ((FlowResponse_init True)
                  \<lparr> response_text :=
                      Some (if truthy (node_content node)
                            then replace_variables (case node_content node of None \<Rightarrow> [] | Some c \<Rightarrow> c)
                                   (cs_variables state)
                            else []),
                    next_node_id := Some (node_id node) \<rparr>, sp))
      | _ \<Rightarrow> (FlowResponse_init False, sp))"

text \<open>
  \<^verbatim>\<open>process_message\<close>. The classifier of the message is an argument, \<open>detect\<close>; the
  service calls it with \<open>detect_intent\<close>. The state of the conversation is an object of
  \<^verbatim>\<open>_states\<close>: what the call has changed in it before a \<^verbatim>\<open>return\<close> stays changed.
\<close>

definition process_message_with ::
  "(string \<Rightarrow> ConversationIntent) \<Rightarrow> ConversationFlowService \<Rightarrow> string \<Rightarrow> string \<Rightarrow> rng \<Rightarrow> datetime
     \<Rightarrow> FlowResponse \<times> ConversationFlowService" where
  "process_message_with detect svc cid incoming_message rnd now =
     (case states svc cid of
        None \<Rightarrow>
          ((FlowResponse_init False)
             \<lparr> requires_human := True, fr_metadata := [(''error'', ''Conversation not found'')] \<rparr>, svc)
      | Some state \<Rightarrow>
          (case flows svc (flow_id state) of
             None \<Rightarrow>
               ((FlowResponse_init False)
                  \<lparr> requires_human := True, fr_metadata := [(''error'', ''Flow not found'')] \<rparr>, svc)
           | Some flow \<Rightarrow>
               (case nodes flow (current_node_id state) of
                  None \<Rightarrow> ((FlowResponse_init False)\<lparr> end_conversation := True \<rparr>, svc)
                | Some current_node \<Rightarrow>
                    (let intent = detect incoming_message;
                         st1 = state\<lparr> message_count := message_count state + 1, last_activity := now \<rparr>;
                         st2 = (if intent = UNKNOWN
                                then st1\<lparr> failed_intents := failed_intents st1 + 1 \<rparr> else st1)
                     in if intent = UNKNOWN \<and> failed_intents st2 \<ge> 3
                        then ((FlowResponse_init True)
                                \<lparr> response_text := Some handoff_text,
                                  requires_human := True,
                                  detected_intent := intent \<rparr>,
                              svc\<lparr> states := (states svc)(cid \<mapsto> st2) \<rparr>)
                        else
                          (let next_id = (case next_nodes current_node (intent_value intent) of
                                            Some n \<Rightarrow> Some n
                                          | None \<Rightarrow> default_next current_node)
                           in if \<not> truthy next_id
                              then ((FlowResponse_init False)
                                      \<lparr> end_conversation := True, detected_intent := intent \<rparr>,
                                    svc\<lparr> states := (states svc)(cid \<mapsto> st2) \<rparr>)
                              else
                                (case nodes flow (case next_id of None \<Rightarrow> [] | Some n \<Rightarrow> n) of
                                   None \<Rightarrow>
                                     ((FlowResponse_init False)\<lparr> end_conversation := True \<rparr>,
                                      svc\<lparr> states := (states svc)(cid \<mapsto> st2) \<rparr>)
                                 | Some next_node \<Rightarrow>
                                     (let (response, sp') =
                                            process_node (spintax_service svc) next_node st2 rnd now
                                      in (response\<lparr> detected_intent := intent \<rparr>,
                                          svc\<lparr> spintax_service := sp',
                                               states := (states svc)(cid \<mapsto>
                                                 st2\<lparr> current_node_id :=
                                                       (case next_id of None \<Rightarrow> [] | Some n \<Rightarrow> n) \<rparr>) \<rparr>))))))))"

definition process_message ::
  "ConversationFlowService \<Rightarrow> string \<Rightarrow> string \<Rightarrow> rng \<Rightarrow> datetime
     \<Rightarrow> FlowResponse \<times> ConversationFlowService" where
  "process_message = process_message_with detect_intent"

text \<open>
  The inbound messages of a conversation, processed in their order, each with its draws
  and its clock read: the responses, and the service after the last one.
\<close>

fun process_messages_with ::
  "(string \<Rightarrow> ConversationIntent) \<Rightarrow> ConversationFlowService \<Rightarrow> string
     \<Rightarrow> (string \<times> rng \<times> datetime) list \<Rightarrow> FlowResponse list \<times> ConversationFlowService" where
  "process_messages_with detect svc cid [] = ([], svc)"
| "process_messages_with detect svc cid ((m, rnd, now) # rest) =
     (let (response, svc1) = process_message_with detect svc cid m rnd now;
          (responses, svc2) = process_messages_with detect svc1 cid rest
      in (response # responses, svc2))"

section \<open>Templates as trees\<close>

text \<open>
  A template whose braces are nested properly is the text (\<open>render\<close>) of a list of
  items: a character that is not a brace, or a group, the items between an opening brace
  and its closing brace. \<open>groups\<close> counts the groups at every depth. A list is
  \<open>well_formed\<close> when no plain character is a brace and, in every group at every depth,
  every alternative (the items between two bars of the group itself, a nested group being
  one item) has at least one item.
\<close>

datatype spin_item = Plain char | Group "spin_item list"

fun render :: "spin_item list \<Rightarrow> string" where
  "render [] = []"
| "render (Plain c # xs) = c # render xs"
| "render (Group ys # xs) = CHR ''{'' # render ys @ CHR ''}'' # render xs"

fun all_plain :: "spin_item list \<Rightarrow> bool" where
  "all_plain [] = True"
| "all_plain (Plain c # xs) = all_plain xs"
| "all_plain (Group ys # xs) = False"

fun groups :: "spin_item list \<Rightarrow> nat" where
  "groups [] = 0"
| "groups (Plain c # xs) = groups xs"
| "groups (Group ys # xs) = Suc (groups ys + groups xs)"

text \<open>
  \<open>alts_nonempty seen xs\<close>: every alternative of \<open>xs\<close> has an item, the first one
  counting as non-empty already when \<open>seen\<close>.
\<close>

fun alts_nonempty :: "bool \<Rightarrow> spin_item list \<Rightarrow> bool" where
  "alts_nonempty seen [] = seen"
| "alts_nonempty seen (x # xs) =
     (if x = Plain CHR ''|'' then seen \<and> alts_nonempty False xs else alts_nonempty True xs)"

fun well_formed :: "spin_item list \<Rightarrow> bool" where
  "well_formed [] = True"
| "well_formed (Plain c # xs) = (not_brace c \<and> well_formed xs)"
| "well_formed (Group ys # xs) = (alts_nonempty False ys \<and> well_formed ys \<and> well_formed xs)"

text \<open>
  The leftmost group without a group inside: the text before it, its body and the text
  after it; and the list with that group replaced by the characters of \<open>opt\<close>.
\<close>

fun first_leaf :: "spin_item list \<Rightarrow> (string \<times> string \<times> string) option" where
  "first_leaf [] = None"
| "first_leaf (Plain c # xs) = map_option (\<lambda>(p, b, q). (c # p, b, q)) (first_leaf xs)"
| "first_leaf (Group ys # xs) =
     (if all_plain ys then Some ([], render ys, render xs)
      else map_option (\<lambda>(p, b, q). (CHR ''{'' # p, b, q @ CHR ''}'' # render xs)) (first_leaf ys))"

fun replace_first :: "string \<Rightarrow> spin_item list \<Rightarrow> spin_item list" where
  "replace_first opt [] = []"
| "replace_first opt (Plain c # xs) = Plain c # replace_first opt xs"
| "replace_first opt (Group ys # xs) =
     (if all_plain ys then map Plain opt @ xs else Group (replace_first opt ys) # xs)"

text \<open>The template of the docstring of the service, \<open>{Hello|Hi {there|friend}|Hey}\<close>.\<close>

definition nested_example :: "spin_item list" where
  "nested_example =
     [Group (map Plain ''Hello|Hi '' @ [Group (map Plain ''there|friend'')] @ map Plain ''|Hey'')]"

section \<open>Runs of the follow-back service\<close>

text \<open>
  The calls that change the follow-back service, and a run of such calls: registering a
  follow, setting the timeout, checking a relationship of the service, processing the
  timeouts of an account, and marking a relationship as messaged.
\<close>

datatype follow_op =
    Register_follow string string string bool datetime datetime
  | Set_timeout_days int
  | Check_follow_back string probe_outcome datetime datetime datetime
  | Process_timeouts string "string \<Rightarrow> bool" "string \<Rightarrow> datetime" datetime
  | Mark_dm_sent string datetime

fun apply_follow_op :: "FollowBackDetectorService \<Rightarrow> follow_op \<Rightarrow> FollowBackDetectorService" where
  "apply_follow_op svc (Register_follow sub_acc target uname is_private now1 now2) =
     snd (register_follow svc sub_acc target uname is_private now1 now2)"
| "apply_follow_op svc (Set_timeout_days days) = set_timeout_days svc days"
| "apply_follow_op svc (Check_follow_back key probe now0 now1 now2) =
     snd (check_stored svc key probe now0 now1 now2)"
| "apply_follow_op svc (Process_timeouts sub_acc unfollow_raises clock now) =
     snd (process_timeouts svc sub_acc unfollow_raises clock now)"
| "apply_follow_op svc (Mark_dm_sent key now) = snd (mark_dm_sent svc key now)"

definition run_follow_ops :: "FollowBackDetectorService \<Rightarrow> follow_op list \<Rightarrow> FollowBackDetectorService" where
  "run_follow_ops svc ops = foldl apply_follow_op svc ops"

text \<open>A relationship of the service that has been sent a message.\<close>

definition messaged :: "FollowBackDetectorService \<Rightarrow> string \<Rightarrow> bool" where
  "messaged svc key \<longleftrightarrow> (\<exists>r. map_of (relationships svc) key = Some r \<and> dm_sent r)"

section \<open>The states of the examples\<close>

text \<open>
  A scheduler with the default limits and one account, \<open>acc1\<close>, created and registered
  at time \<open>0\<close> (so its age category is \<open>NEW\<close>); and the same scheduler after that account
  has been set to cool for thirty minutes at time \<open>0\<close>.
\<close>

definition example_scheduler :: SmartSchedulerService where
  "example_scheduler =
     snd (register_account SmartSchedulerService_init ''acc1'' (Some 0) ''UTC'' 0 0 0)"


text \<open>
  A spintax service whose only template, \<open>t\<close>, has the text \<open>{A|B} [x]\<close>, added with
  \<open>add_template\<close>.
\<close>

definition example_template :: MessageTemplate where
  "example_template =
     \<lparr> mt_id = ''t'', mt_name = ''example'', template = ''{A|B} [x]'', mt_variables = [],
       category = ''general'', mt_platform = ''all'', language = ''en'',
       success_count = 0, total_used = 0, mt_created_at = 0 \<rparr>"

definition example_spintax :: SpintaxService where
  "example_spintax = add_template \<lparr> templates = Map.empty \<rparr> example_template"

text \<open>
  A pool with the proxy \<open>p1\<close>, marked as banned; and a pool with the proxies \<open>p1\<close> and
  \<open>p2\<close> in which \<open>p1\<close> has been assigned to the account \<open>acc1\<close>.
\<close>

definition banned_pool :: ProxyPoolService where
  "banned_pool =
     snd (mark_proxy_banned
            (add_proxy ProxyPoolService_init (ProxyConfig_init ''p1'' ''10.0.0.1'' 8080)) ''p1'')"

definition example_pool :: ProxyPoolService where
  "example_pool =
     snd (assign_proxy_to_account
            (add_proxy (add_proxy ProxyPoolService_init (ProxyConfig_init ''p1'' ''10.0.0.1'' 8080))
               (ProxyConfig_init ''p2'' ''10.0.0.2'' 8080))
            ''acc1'' (Some ''p1'') None)"

definition mixed_pool :: ProxyPoolService where
  "mixed_pool = snd (mark_proxy_banned example_pool ''p1'')"

text \<open>
  A follow-back service in which \<open>acc1\<close> has followed \<open>u1\<close> (a public account) at time
  \<open>0\<close>; and the same service after \<open>u1\<close> has followed back, has been sent a message,
  and has been followed again.
\<close>

definition example_follows :: FollowBackDetectorService where
  "example_follows =
     snd (register_follow FollowBackDetectorService_init ''acc1'' ''u1'' ''user_one'' False 0 0)"

definition messaged_follows :: FollowBackDetectorService where
  "messaged_follows =
     run_follow_ops example_follows
       [Check_follow_back ''acc1_u1'' (Answers True) 1 1 1, Mark_dm_sent ''acc1_u1'' 2]"

text \<open>
  A conversation service without a spintax service, whose flow \<open>standard_outreach\<close> has
  been replaced (with \<open>add_flow\<close>) by a flow of two nodes, the start and a message node
  that leads to itself; the conversation \<open>c1\<close> has been started in it.
\<close>

definition example_flow :: ConversationFlow where
  "example_flow =
     \<lparr> cf_id = ''standard_outreach'', cf_name = ''Example'', description = ''One question'',
       nodes =
         [''start'' \<mapsto>
            \<lparr> node_id = ''start'', node_type = START, node_content = None, template_id = None,
              delay_seconds = 0, next_nodes = Map.empty, default_next = Some ''ask'',
              node_metadata = Map.empty \<rparr>,
          ''ask'' \<mapsto>
            \<lparr> node_id = ''ask'', node_type = MESSAGE, node_content = Some ''How are you?'',
              template_id = None, delay_seconds = 0,
              next_nodes = [''greeting'' \<mapsto> ''ask''], default_next = Some ''ask'',
              node_metadata = Map.empty \<rparr>],
       start_node_id = ''start'', cf_variables = [], cf_platform = ''all'', is_active = True,
       cf_created_at = 0 \<rparr>"

definition example_conversations :: ConversationFlowService where
  "example_conversations =
     (let svc = add_flow \<lparr> spintax_service = None, flows = Map.empty, states = Map.empty \<rparr> example_flow
      in case start_conversation svc ''c1'' ''standard_outreach'' None 0 0 of
           Inl _ \<Rightarrow> svc
         | Inr (_, svc') \<Rightarrow> svc')"

chapter \<open>Properties\<close>

section \<open>The rate limiter\<close>

lemma record_action_fields:
  assumes "account_states svc acc = Some st"
  shows "\<exists>st'. account_states (record_action svc acc a True now) acc = Some st'
           \<and> get0 (hourly_actions st') a = get0 (hourly_actions st) a + 1
           \<and> get0 (daily_actions st') a = get0 (daily_actions st) a + 1
           \<and> last_action_at st' a = Some now
           \<and> age_category st' = age_category st
           \<and> hourly_reset_at st' = hourly_reset_at st
           \<and> daily_reset_at st' = daily_reset_at st
           \<and> is_cooling st' = is_cooling st
           \<and> cooling_until st' = cooling_until st"
  using assms by (simp add: record_action_def get0_def Let_def)

lemma record_action_rate_limits:
  "rate_limits (record_action svc acc a success now) = rate_limits svc"
  by (simp add: record_action_def Let_def split: option.splits)

lemma record_actions_rate_limits:
  "rate_limits (record_actions svc acc a success nows) = rate_limits svc"
  by (induction nows arbitrary: svc) (simp_all add: record_action_rate_limits)

lemma record_actions_fields:
  assumes "account_states svc acc = Some st"
  shows "\<exists>st'. account_states (record_actions svc acc a True nows) acc = Some st'
           \<and> get0 (hourly_actions st') a = get0 (hourly_actions st) a + int (length nows)
           \<and> get0 (daily_actions st') a = get0 (daily_actions st) a + int (length nows)
           \<and> last_action_at st' a = (if nows = [] then last_action_at st a else Some (last nows))
           \<and> age_category st' = age_category st
           \<and> hourly_reset_at st' = hourly_reset_at st
           \<and> daily_reset_at st' = daily_reset_at st
           \<and> is_cooling st' = is_cooling st
           \<and> cooling_until st' = cooling_until st"
  using assms
proof (induction nows arbitrary: svc st)
  case Nil
  then show ?case by simp
next
  case (Cons now nows)
  from record_action_fields [OF Cons.prems, of a now]
  obtain st1 where s1: "account_states (record_action svc acc a True now) acc = Some st1"
    and f1: "get0 (hourly_actions st1) a = get0 (hourly_actions st) a + 1"
      "get0 (daily_actions st1) a = get0 (daily_actions st) a + 1"
      "last_action_at st1 a = Some now"
      "age_category st1 = age_category st"
      "hourly_reset_at st1 = hourly_reset_at st"
      "daily_reset_at st1 = daily_reset_at st"
      "is_cooling st1 = is_cooling st"
      "cooling_until st1 = cooling_until st"
    by blast
  from Cons.IH [OF s1] f1 show ?case by auto
qed

lemma default_follow_limits:
  "get_limit_for_age (RateLimitConfig_init FOLLOW 20 100 60 300) NEW ''hourly'' = 6"
  "get_limit_for_age (RateLimitConfig_init FOLLOW 20 100 60 300) NEW ''daily'' = 30"
  by (simp_all add: get_limit_for_age_def RateLimitConfig_init_def py_int_def)

lemma default_instagram_follow:
  "(case DEFAULT_LIMITS ''instagram'' of None \<Rightarrow> Map.empty | Some l \<Rightarrow> l) FOLLOW
     = Some (RateLimitConfig_init FOLLOW 20 100 60 300)"
  by (simp add: DEFAULT_LIMITS_def)

lemma str_int_30: "str_int 30 = ''30''"
  by code_simp

lemma str_int_6: "str_int 6 = ''6''"
  by code_simp

lemma register_account_state:
  "account_states (snd (register_account svc acc created tz t1 t2 t3)) acc
     = Some (fst (register_account svc acc created tz t1 t2 t3))"
  by (simp add: register_account_def Let_def)

text \<open>
  Claim C9. For an account that is not registered, \<open>can_execute_action\<close> returns
  \<open>(False, "Account not registered")\<close>, and \<open>record_action\<close> and
  \<open>set_account_cooling\<close> return the service as it was: no state is created for the
  account and no counter is touched.
\<close>

theorem unregistered_account_is_refused_and_untouched:
  assumes "account_states svc acc = None"
  shows "can_execute_action svc acc a platform now = ((False, Some Account_not_registered), svc)
       \<and> denial_text str_datetime format_0f Account_not_registered = ''Account not registered''
       \<and> record_action svc acc a success now = svc
       \<and> set_account_cooling svc acc duration_minutes reason now = svc"
  using assms by (simp add: can_execute_action_def record_action_def set_account_cooling_def)

theorem unregistered_account_witness:
  "account_states SmartSchedulerService_init ''ghost'' = None
   \<and> can_execute_action SmartSchedulerService_init ''ghost'' FOLLOW ''instagram'' 0
       = ((False, Some Account_not_registered), SmartSchedulerService_init)
   \<and> record_action SmartSchedulerService_init ''ghost'' FOLLOW True 0 = SmartSchedulerService_init
   \<and> set_account_cooling SmartSchedulerService_init ''ghost'' 30 None 0 = SmartSchedulerService_init"
proof -
  have h: "account_states SmartSchedulerService_init ''ghost'' = None"
    by (simp add: SmartSchedulerService_init_def)
  from unregistered_account_is_refused_and_untouched [OF h, of FOLLOW "''instagram''" 0 str_int str_int True 30 None] h
  show ?thesis by simp
qed

text \<open>
  Claim C2, as amended. An account of age category \<open>NEW\<close> is registered on a scheduler
  with the default limits, and thirty successful follows are recorded for it. On
  instagram its limits for a follow are \<open>int(20 * 0.3) = 6\<close> an hour and
  \<open>int(100 * 0.3) = 30\<close> a day, and the hourly limit is checked first. So a check
  made before the hour of the registration has passed returns
  \<open>(False, "Hourly limit reached (30/6)")\<close>; the check returns
  \<open>(False, "Daily limit reached (30/30)")\<close> when it is made after that hour has passed
  (the check then empties the hourly counters) and before the day has.
\<close>

theorem thirty_follows_meet_the_hourly_limit_first:
  assumes limits: "rate_limits svc = DEFAULT_LIMITS"
    and new: "(now_age - created) div timedelta_days 1 < 7"
    and n: "length nows = 30"
  shows "(now < now_h + timedelta_hours 1 \<longrightarrow>
            fst (can_execute_action
                   (record_actions (snd (register_account svc acc (Some created) tz now_age now_h now_d))
                      acc FOLLOW True nows) acc FOLLOW ''instagram'' now)
              = (False, Some (Hourly_limit_reached 30 6)))
       \<and> (now_h + timedelta_hours 1 \<le> now \<and> now < now_d + timedelta_days 1 \<longrightarrow>
            fst (can_execute_action
                   (record_actions (snd (register_account svc acc (Some created) tz now_age now_h now_d))
                      acc FOLLOW True nows) acc FOLLOW ''instagram'' now)
              = (False, Some (Daily_limit_reached 30 30)))
       \<and> denial_text str_datetime format_0f (Hourly_limit_reached 30 6) = ''Hourly limit reached (30/6)''
       \<and> denial_text str_datetime format_0f (Daily_limit_reached 30 30) = ''Daily limit reached (30/30)''"
proof -
  let ?reg = "register_account svc acc (Some created) tz now_age now_h now_d"
  let ?svc30 = "record_actions (snd ?reg) acc FOLLOW True nows"
  have reg: "account_states (snd ?reg) acc = Some (fst ?reg)"
    by (rule register_account_state)
  have st0: "age_category (fst ?reg) = NEW" "hourly_actions (fst ?reg) = Map.empty"
    "daily_actions (fst ?reg) = Map.empty" "hourly_reset_at (fst ?reg) = now_h"
    "daily_reset_at (fst ?reg) = now_d" "\<not> is_cooling (fst ?reg)"
    using new by (simp_all add: register_account_def Let_def calculate_age_category_def)
  from record_actions_fields [OF reg, of FOLLOW nows] n st0
  obtain st where st: "account_states ?svc30 acc = Some st"
    and cnt: "get0 (hourly_actions st) FOLLOW = 30" "get0 (daily_actions st) FOLLOW = 30"
    and fr: "age_category st = NEW" "hourly_reset_at st = now_h" "daily_reset_at st = now_d"
      "\<not> is_cooling st"
    by (auto simp: get0_def)
  have lim: "rate_limits ?svc30 = DEFAULT_LIMITS"
    using limits by (simp add: record_actions_rate_limits register_account_def Let_def)
  have hourly: "fst (can_execute_action ?svc30 acc FOLLOW ''instagram'' now)
                  = (False, Some (Hourly_limit_reached 30 6))"
    if "now < now_h + timedelta_hours 1"
    using that st cnt fr lim
    by (simp add: can_execute_action_def cooling_blocks_def check_limits_def
        default_instagram_follow default_follow_limits reset_counters_if_needed_def Let_def
        split: prod.splits)
  have "timedelta_hours 1 \<le> timedelta_days 1"
    by (simp add: timedelta_hours_def timedelta_days_def microseconds_per_second_def)
  have daily: "fst (can_execute_action ?svc30 acc FOLLOW ''instagram'' now)
                  = (False, Some (Daily_limit_reached 30 30))"
    if "now_h + timedelta_hours 1 \<le> now" "now < now_d + timedelta_days 1"
    using that st cnt fr lim
    by (simp add: can_execute_action_def cooling_blocks_def check_limits_def
        default_instagram_follow default_follow_limits reset_counters_if_needed_def Let_def get0_def
        split: prod.splits)
  show ?thesis
    using hourly daily by (simp add: str_int_30 str_int_6)
qed

theorem thirty_follows_witness:
  "fst (can_execute_action (record_actions example_scheduler ''acc1'' FOLLOW True (replicate 30 0))
          ''acc1'' FOLLOW ''instagram'' (timedelta_minutes 59))
     = (False, Some (Hourly_limit_reached 30 6))
   \<and> fst (can_execute_action (record_actions example_scheduler ''acc1'' FOLLOW True (replicate 30 0))
          ''acc1'' FOLLOW ''instagram'' (timedelta_hours 2))
     = (False, Some (Daily_limit_reached 30 30))"
proof -
  have l: "rate_limits SmartSchedulerService_init = DEFAULT_LIMITS"
    by (simp add: SmartSchedulerService_init_def)
  have a: "((0::int) - 0) div timedelta_days 1 < 7"
    by simp
  have n: "length (replicate 30 (0::int)) = 30"
    by simp
  have t1: "timedelta_minutes 59 < 0 + timedelta_hours 1"
    by (simp add: timedelta_minutes_def timedelta_hours_def microseconds_per_second_def)
  have t2: "0 + timedelta_hours 1 \<le> timedelta_hours 2 \<and> timedelta_hours 2 < 0 + timedelta_days 1"
    by (simp add: timedelta_days_def timedelta_hours_def microseconds_per_second_def)
  from thirty_follows_meet_the_hourly_limit_first [OF l a n, of "timedelta_minutes 59" 0 "''acc1''" "''UTC''" 0 str_int str_int]
    thirty_follows_meet_the_hourly_limit_first [OF l a n, of "timedelta_hours 2" 0 "''acc1''" "''UTC''" 0 str_int str_int]
    t1 t2
  show ?thesis
    by (simp add: example_scheduler_def)
qed

text \<open>
  The claim as it was stated fails: with the registration, the thirty follows and the check
  all at time \<open>0\<close>, no counter is reset and the answer names the hourly limit.
\<close>

theorem thirty_follows_counterexample:
  "fst (can_execute_action (record_actions example_scheduler ''acc1'' FOLLOW True (replicate 30 0))
     ''acc1'' FOLLOW ''instagram'' 0)
   = (False, Some (Hourly_limit_reached 30 6))"
  by code_simp



section \<open>Spintax\<close>

lemma search1: "spintax_search ''{A|B} {C|D}'' = Some ([], ''A|B'', '' {C|D}'')"
  by (simp add: starts_with_def not_brace_def)

lemma split1: "split_on CHR ''|'' ''A|B'' = [''A'', ''B'']"
  by simp

lemma split2: "split_on CHR ''|'' ''C|D'' = [''C'', ''D'']"
  by simp

lemma searchA: "spintax_search ''A {C|D}'' = Some (''A '', ''C|D'', [])"
  by (simp add: starts_with_def not_brace_def)

lemma searchB: "spintax_search ''B {C|D}'' = Some (''B '', ''C|D'', [])"
  by (simp add: starts_with_def not_brace_def)

lemma search_none: "spintax_search [x, CHR '' '', y] = None" if "x \<noteq> CHR ''{''"
  using that by (simp add: starts_with_def not_brace_def)

lemma choice2: "random_choice r [a, b] = (if even r then a else b)"
proof -
  have L: "length [a, b] = 2"
    by simp
  have nth: "random_choice r [a, b] = [a, b] ! (r mod 2)"
    by (simp only: random_choice_def L)
  show ?thesis
  proof (cases "even r")
    case True
    then have "r mod 2 = 0" by presburger
    with True nth show ?thesis by simp
  next
    case False
    then have "r mod 2 = 1" by presburger
    with False nth show ?thesis by simp
  qed
qed

lemma spin_loop_step:
  "spintax_search s = Some (pre, body, post) \<Longrightarrow>
     spin_loop (Suc n) rnd i s
       = spin_loop n rnd (Suc i) (pre @ random_choice (rnd i) (split_on CHR ''|'' body) @ post)"
  by simp

lemma spin_loop_stop: "spintax_search s = None \<Longrightarrow> spin_loop n rnd i s = s"
  by (cases n) simp_all

lemma spin_two_steps:
  assumes s1: "spintax_search s0 = Some (p1, b1, q1)"
    and s2: "spintax_search (p1 @ random_choice (rnd 0) (split_on CHR ''|'' b1) @ q1) = Some (p2, b2, q2)"
    and s3: "spintax_search (p2 @ random_choice (rnd (Suc 0)) (split_on CHR ''|'' b2) @ q2) = None"
  shows "spin rnd s0 = p2 @ random_choice (rnd (Suc 0)) (split_on CHR ''|'' b2) @ q2"
proof -
  have "spin rnd s0 = spin_loop (Suc (Suc 8)) rnd 0 s0"
    by (simp add: spin_def max_iterations_def)
  also have "\<dots> = spin_loop (Suc 8) rnd (Suc 0) (p1 @ random_choice (rnd 0) (split_on CHR ''|'' b1) @ q1)"
    by (rule spin_loop_step [OF s1])
  also have "\<dots> = spin_loop 8 rnd (Suc (Suc 0)) (p2 @ random_choice (rnd (Suc 0)) (split_on CHR ''|'' b2) @ q2)"
    by (rule spin_loop_step [OF s2])
  also have "\<dots> = p2 @ random_choice (rnd (Suc 0)) (split_on CHR ''|'' b2) @ q2"
    by (rule spin_loop_stop [OF s3])
  finally show ?thesis .
qed

lemma spin_two_groups:
  "spin rnd ''{A|B} {C|D}''
     = (if even (rnd 0) then ''A'' else ''B'') @ '' '' @ (if even (rnd 1) then ''C'' else ''D'')"
proof -
  have s2: "spintax_search ([] @ random_choice (rnd 0) (split_on CHR ''|'' ''A|B'') @ '' {C|D}'')
      = Some ((if even (rnd 0) then ''A '' else ''B ''), ''C|D'', [])"
    unfolding split1 choice2 using searchA searchB by simp
  have s3: "spintax_search ((if even (rnd 0) then ''A '' else ''B '')
        @ random_choice (rnd (Suc 0)) (split_on CHR ''|'' ''C|D'') @ []) = None"
    unfolding split2 choice2
    by (simp add: search_none del: spintax_search.simps)
  show ?thesis
    unfolding spin_two_steps [OF search1 s2 s3] split2 choice2 by simp
qed

text \<open>
  Claim C1, as amended. \<open>generate_message\<close> substitutes the variables first and then
  resolves the spintax of the text it has obtained, whatever the template and the
  variables: the content is \<open>spin\<close> of \<open>replace_variables\<close> of the template. So the
  spintax of a substituted value is resolved like the template's own: on the template
  \<open>{A|B} [x]\<close> with \<open>{C|D}\<close> for \<open>x\<close> the content is \<open>A C\<close>, \<open>A D\<close>, \<open>B C\<close> or
  \<open>B D\<close>, by the parity of the first two draws, and never keeps the braces of the value.
\<close>

theorem generate_message_spins_the_substituted_values:
  assumes "templates svc tid = Some t"
  shows "map_option content (fst (generate_message svc tid variables rnd now))
           = Some (spin rnd (replace_variables (template t) variables))
       \<and> (template t = ''{A|B} [x]'' \<longrightarrow>
            map_option content (fst (generate_message svc tid [(''x'', ''{C|D}'')] rnd now))
              = Some ((if even (rnd 0) then ''A'' else ''B'') @ '' ''
                      @ (if even (rnd 1) then ''C'' else ''D''))
          \<and> spin rnd (replace_variables (template t) [(''x'', ''{C|D}'')])
              \<in> {''A C'', ''A D'', ''B C'', ''B D''})"
proof -
  have sub: "replace_variables ''{A|B} [x]'' [(''x'', ''{C|D}'')] = ''{A|B} {C|D}''"
    by (simp add: starts_with_def)
  have gen: "map_option content (fst (generate_message svc tid vs rnd now))
           = Some (spin rnd (replace_variables (template t) vs))" for vs
    using assms by (simp add: generate_message_def)
  have four: "spin rnd ''{A|B} {C|D}'' \<in> {''A C'', ''A D'', ''B C'', ''B D''}"
    unfolding spin_two_groups by simp
  show ?thesis
    unfolding gen using sub four spin_two_groups by simp
qed

theorem generate_message_witness:
  "map_option content (fst (generate_message example_spintax ''t'' [(''x'', ''{C|D}'')] (const_rng 1) 0))
     = Some ''B D''"
proof -
  have t: "templates example_spintax ''t''
             = Some (example_template\<lparr> mt_variables := remdups (variable_findall (template example_template)) \<rparr>)"
    by (simp add: example_spintax_def add_template_def example_template_def)
  have x: "template (example_template\<lparr> mt_variables := remdups (variable_findall (template example_template)) \<rparr>)
             = ''{A|B} [x]''"
    by (simp add: example_template_def)
  from generate_message_spins_the_substituted_values [OF t, of "[(''x'', ''{C|D}'')]" "const_rng 1" 0] x
  show ?thesis
    by (simp add: const_rng_def)
qed

text \<open>
  The claim as it was stated fails: when every draw picks the first option, the content is
  \<open>A C\<close>, neither \<open>A {C|D}\<close> nor \<open>B {C|D}\<close>.
\<close>

theorem generate_message_counterexample:
  "map_option content (fst (generate_message example_spintax ''t'' [(''x'', ''{C|D}'')] (const_rng 0) 0))
     = Some ''A C''"
  by code_simp

lemma render_append: "render (xs @ ys) = render xs @ render ys"
  by (induction xs rule: render.induct) simp_all

lemma render_plain: "render (map Plain s) = s"
  by (induction s) simp_all

lemma all_plain_groups: "all_plain xs \<longleftrightarrow> groups xs = 0"
  by (induction xs rule: groups.induct) simp_all

lemma groups_append: "groups (xs @ ys) = groups xs + groups ys"
  by (induction xs rule: groups.induct) simp_all

lemma groups_plain: "groups (map Plain s) = 0"
  by (induction s) simp_all

lemma well_formed_append: "well_formed (xs @ ys) \<longleftrightarrow> well_formed xs \<and> well_formed ys"
  by (induction xs rule: well_formed.induct) auto

lemma well_formed_plain: "well_formed (map Plain s) \<longleftrightarrow> list_all not_brace s"
  by (induction s) simp_all

lemma plain_render_no_brace: "well_formed xs \<Longrightarrow> all_plain xs \<Longrightarrow> list_all not_brace (render xs)"
  by (induction xs rule: well_formed.induct) simp_all

lemma alts_nonempty_Nil: "alts_nonempty False xs \<Longrightarrow> xs \<noteq> []"
  by (cases xs) simp_all

lemma render_Nil: "render xs = [] \<longleftrightarrow> xs = []"
  by (induction xs rule: render.induct) simp_all

lemma search_no_brace:
  "list_all not_brace s \<Longrightarrow>
     spintax_search (s @ r) = map_option (\<lambda>(p, b, q). (s @ p, b, q)) (spintax_search r)"
proof (induction s)
  case Nil
  show ?case by (simp add: option.map_ident cong: option.map_cong)
next
  case (Cons c s)
  then have "c \<noteq> CHR ''{''" by (simp add: not_brace_def)
  with Cons show ?case
    by (simp add: option.map_comp comp_def case_prod_unfold)
qed

lemma search_no_brace_None: "list_all not_brace s \<Longrightarrow> spintax_search s = None"
  using search_no_brace [of s "[]"] by simp

lemma takeWhile_body:
  "list_all not_brace s \<Longrightarrow> takeWhile not_brace (s @ CHR ''}'' # r) = s"
  by (induction s) (simp_all add: not_brace_def)

lemma dropWhile_body:
  "list_all not_brace s \<Longrightarrow> dropWhile not_brace (s @ CHR ''}'' # r) = CHR ''}'' # r"
  by (induction s) (simp_all add: not_brace_def)

lemma dropWhile_group:
  "well_formed ys \<Longrightarrow> \<not> all_plain ys \<Longrightarrow> \<exists>v. dropWhile not_brace (render ys @ r) = CHR ''{'' # v"
  by (induction ys rule: well_formed.induct) (simp_all add: not_brace_def)

lemma search_render:
  "well_formed xs \<Longrightarrow> \<not> all_plain xs \<Longrightarrow>
     \<exists>p b q. first_leaf xs = Some (p, b, q) \<and> spintax_search (render xs @ r) = Some (p, b, q @ r)"
proof (induction xs arbitrary: r rule: render.induct)
  case 1
  then show ?case by simp
next
  case (2 c xs)
  then have c: "c \<noteq> CHR ''{''" and wf: "well_formed xs" and np: "\<not> all_plain xs"
    by (simp_all add: not_brace_def)
  from "2.IH" [OF wf np, of r] obtain p b q
    where "first_leaf xs = Some (p, b, q)" "spintax_search (render xs @ r) = Some (p, b, q @ r)"
    by blast
  with c show ?case by simp
next
  case (3 ys xs)
  then have wfy: "well_formed ys" and ne: "alts_nonempty False ys"
    by simp_all
  show ?case
  proof (cases "all_plain ys")
    case True
    have nb: "list_all not_brace (render ys)"
      by (rule plain_render_no_brace [OF wfy True])
    have "render ys \<noteq> []"
      using alts_nonempty_Nil [OF ne] by (simp add: render_Nil)
    then show ?thesis
      using True takeWhile_body [OF nb, of "render xs @ r"] dropWhile_body [OF nb, of "render xs @ r"]
      by (simp add: starts_with_def)
  next
    case False
    from dropWhile_group [OF wfy False, of "CHR ''}'' # render xs @ r"]
    obtain v where v: "dropWhile not_brace (render ys @ CHR ''}'' # render xs @ r) = CHR ''{'' # v"
      by blast
    from "3.IH"(1) [OF wfy False, of "CHR ''}'' # render xs @ r"] obtain p b q
      where fl: "first_leaf ys = Some (p, b, q)"
        and se: "spintax_search (render ys @ CHR ''}'' # render xs @ r)
                   = Some (p, b, q @ CHR ''}'' # render xs @ r)"
      by blast
    show ?thesis
      using False v fl se by (simp add: starts_with_def)
  qed
qed

lemma render_replace_first:
  "first_leaf xs = Some (p, b, q) \<Longrightarrow> render (replace_first opt xs) = p @ opt @ q"
proof (induction xs arbitrary: p q rule: render.induct)
  case 1
  then show ?case by simp
next
  case (2 c xs)
  then show ?case by auto
next
  case (3 ys xs)
  then show ?case
    by (cases "all_plain ys") (auto simp add: render_append render_plain)
qed

lemma alts_nonempty_plain:
  "list_all (\<lambda>c. c \<noteq> CHR ''|'') s \<Longrightarrow>
     alts_nonempty seen (map Plain s @ xs) = alts_nonempty (seen \<or> s \<noteq> []) xs"
  by (induction s arbitrary: seen) simp_all

lemma alts_nonempty_replace_first:
  "alts_nonempty seen xs \<Longrightarrow> opt \<noteq> [] \<Longrightarrow> list_all (\<lambda>c. c \<noteq> CHR ''|'') opt \<Longrightarrow>
     alts_nonempty seen (replace_first opt xs)"
proof (induction xs arbitrary: seen rule: render.induct)
  case 1
  then show ?case by simp
next
  case (2 c xs)
  then show ?case by (auto split: if_splits)
next
  case (3 ys xs)
  then show ?case by (simp add: alts_nonempty_plain)
qed

lemma well_formed_replace_first:
  "well_formed xs \<Longrightarrow> opt \<noteq> [] \<Longrightarrow> list_all (\<lambda>c. c \<noteq> CHR ''|'') opt \<Longrightarrow> list_all not_brace opt \<Longrightarrow>
     well_formed (replace_first opt xs)"
proof (induction xs rule: render.induct)
  case 1
  then show ?case by simp
next
  case (2 c xs)
  then show ?case by simp
next
  case (3 ys xs)
  then show ?case
    by (simp add: well_formed_append well_formed_plain alts_nonempty_replace_first)
qed

lemma groups_replace_first:
  "\<not> all_plain xs \<Longrightarrow> Suc (groups (replace_first opt xs)) = groups xs"
proof (induction xs rule: render.induct)
  case 1
  then show ?case by simp
next
  case (2 c xs)
  then show ?case by simp
next
  case (3 ys xs)
  then show ?case
    by (simp add: groups_append groups_plain all_plain_groups)
qed

lemma split_on_not_Nil: "split_on sep s \<noteq> []"
  by (induction s) (simp_all split: list.splits)

lemma split_on_no_sep: "o' \<in> set (split_on sep s) \<Longrightarrow> sep \<notin> set o'"
  by (induction s arbitrary: o') (auto split: list.splits if_splits)

lemma split_on_subset: "o' \<in> set (split_on sep s) \<Longrightarrow> set o' \<subseteq> set s"
proof (induction s arbitrary: o')
  case Nil
  then show ?case by simp
next
  case (Cons a s)
  obtain w ws where ws: "split_on sep s = w # ws"
    using split_on_not_Nil [of sep s] by (cases "split_on sep s") auto
  have w: "set w \<subseteq> set s"
    using Cons.IH [of w] ws by simp
  have rest: "set v \<subseteq> set s" if "v \<in> set ws" for v
    using Cons.IH [of v] ws that by simp
  show ?case
  proof (cases "a = sep")
    case True
    with Cons.prems ws have "o' = [] \<or> o' = w \<or> o' \<in> set ws" by simp
    with w rest show ?thesis by auto
  next
    case False
    with Cons.prems ws have "o' = a # w \<or> o' \<in> set ws" by simp
    with w rest show ?thesis by auto
  qed
qed

lemma split_on_alts:
  "all_plain ys \<Longrightarrow> alts_nonempty seen ys \<Longrightarrow>
     (seen \<or> hd (split_on CHR ''|'' (render ys)) \<noteq> [])
     \<and> (\<forall>o' \<in> set (tl (split_on CHR ''|'' (render ys))). o' \<noteq> [])"
proof (induction ys arbitrary: seen rule: render.induct)
  case 1
  then show ?case by simp
next
  case (2 c xs)
  show ?case
  proof (cases "c = CHR ''|''")
    case True
    with 2 have "seen" "alts_nonempty False xs" "all_plain xs" by simp_all
    from "2.IH" [OF this(3,2)] this(1) True split_on_not_Nil [of "CHR ''|''" "render xs"]
    show ?thesis by (cases "split_on CHR ''|'' (render xs)") auto
  next
    case False
    with 2 have "alts_nonempty True xs" "all_plain xs" by simp_all
    from "2.IH" [OF this(2,1)] False split_on_not_Nil [of "CHR ''|''" "render xs"]
    show ?thesis by (cases "split_on CHR ''|'' (render xs)") auto
  qed
next
  case (3 ys xs)
  then show ?case by simp
qed

lemma leaf_options:
  assumes "all_plain ys" "alts_nonempty False ys" "well_formed ys"
    and "o' \<in> set (split_on CHR ''|'' (render ys))"
  shows "o' \<noteq> [] \<and> list_all (\<lambda>c. c \<noteq> CHR ''|'') o' \<and> list_all not_brace o'"
proof -
  from split_on_alts [OF assms(1,2)] split_on_not_Nil [of "CHR ''|''" "render ys"] assms(4)
  have "o' \<noteq> []"
    by (cases "split_on CHR ''|'' (render ys)") auto
  moreover have "list_all (\<lambda>c. c \<noteq> CHR ''|'') o'"
    using split_on_no_sep [OF assms(4)] by (auto simp add: list_all_iff)
  moreover have "list_all not_brace o'"
    using split_on_subset [OF assms(4)] plain_render_no_brace [OF assms(3,1)]
    by (auto simp add: list_all_iff)
  ultimately show ?thesis by simp
qed

lemma first_leaf_options:
  "first_leaf xs = Some (p, b, q) \<Longrightarrow> well_formed xs \<Longrightarrow> o' \<in> set (split_on CHR ''|'' b) \<Longrightarrow>
     o' \<noteq> [] \<and> list_all (\<lambda>c. c \<noteq> CHR ''|'') o' \<and> list_all not_brace o'"
proof (induction xs arbitrary: p q rule: render.induct)
  case 1
  then show ?case by simp
next
  case (2 c xs)
  then show ?case by auto
next
  case (3 ys xs)
  show ?case
  proof (cases "all_plain ys")
    case True
    with "3.prems" have b: "b = render ys" and ne: "alts_nonempty False ys" and wf: "well_formed ys"
      by simp_all
    from leaf_options [OF True ne wf] "3.prems"(3) b show ?thesis
      by simp
  next
    case False
    with "3.prems" obtain p' q' where "first_leaf ys = Some (p', b, q')" and "well_formed ys"
      by auto
    from "3.IH"(1) [OF this] "3.prems"(3) show ?thesis .
  qed
qed

lemma random_choice_mem: "xs \<noteq> [] \<Longrightarrow> random_choice r xs \<in> set xs"
  by (simp add: random_choice_def)

lemma spin_loop_well_formed:
  "well_formed xs \<Longrightarrow> groups xs \<le> n \<Longrightarrow> list_all not_brace (spin_loop n rnd i (render xs))"
proof (induction n arbitrary: xs i)
  case 0
  then show ?case
    by (simp add: plain_render_no_brace all_plain_groups)
next
  case (Suc n)
  show ?case
  proof (cases "all_plain xs")
    case True
    have nb: "list_all not_brace (render xs)"
      by (rule plain_render_no_brace [OF Suc.prems(1) True])
    then show ?thesis
      by (simp add: search_no_brace_None)
  next
    case False
    from search_render [OF Suc.prems(1) False, of "[]"] obtain p b q
      where fl: "first_leaf xs = Some (p, b, q)" and se: "spintax_search (render xs) = Some (p, b, q)"
      by auto
    let ?opt = "random_choice (rnd i) (split_on CHR ''|'' b)"
    have mem: "?opt \<in> set (split_on CHR ''|'' b)"
      by (rule random_choice_mem [OF split_on_not_Nil])
    from first_leaf_options [OF fl Suc.prems(1) mem]
    have opt: "?opt \<noteq> []" "list_all (\<lambda>c. c \<noteq> CHR ''|'') ?opt" "list_all not_brace ?opt"
      by simp_all
    have wf: "well_formed (replace_first ?opt xs)"
      by (rule well_formed_replace_first [OF Suc.prems(1) opt])
    have g: "groups (replace_first ?opt xs) \<le> n"
      using groups_replace_first [OF False, of ?opt] Suc.prems(2) by simp
    have "spin_loop (Suc n) rnd i (render xs) = spin_loop n rnd (Suc i) (render (replace_first ?opt xs))"
      by (simp add: se render_replace_first [OF fl])
    with Suc.IH [OF wf g] show ?thesis by simp
  qed
qed

text \<open>
  Claim C3, as amended. \<open>spin\<close> always returns: its loop runs \<open>max_iterations = 10\<close>
  times at most. For every template whose braces are nested properly, in which no group
  at any depth has an empty alternative, and which has ten groups at most, the output has
  no brace, whatever the draws. (What \<open>validate_template\<close> checks - as many opening
  as closing braces, no blank alternative in the innermost groups of the text - is not
  enough.)
\<close>

theorem spin_resolves_every_group_of_a_well_formed_template:
  assumes "well_formed xs" and "groups xs \<le> max_iterations"
  shows "list_all not_brace (spin rnd (render xs))"
  unfolding spin_def by (rule spin_loop_well_formed [OF assms])

theorem spin_well_formed_witness:
  "list_all not_brace (spin (const_rng 1) ''{Hello|Hi {there|friend}|Hey}'')"
proof -
  have r: "render nested_example = ''{Hello|Hi {there|friend}|Hey}''"
    by (simp add: nested_example_def)
  have wf: "well_formed nested_example"
    by (simp add: nested_example_def not_brace_def)
  have g: "groups nested_example \<le> max_iterations"
    by (simp add: nested_example_def max_iterations_def)
  from spin_resolves_every_group_of_a_well_formed_template [OF wf g, of "const_rng 1"] r
  show ?thesis by simp
qed

text \<open>
  The claim as it was stated fails: the template \<open>}{\<close> passes the validation, and
  \<open>spin\<close> returns it as it is.
\<close>

theorem spin_validated_counterexample:
  "valid (validate_template (const_rng 0) ''}{'') \<and> spin (const_rng 0) ''}{'' = ''}{''"
  by code_simp

section \<open>The proxy pool\<close>

lemma map_of_update: "map_of (AList.update k v al) k' = (if k' = k then Some v else map_of al k')"
  by (simp add: update_conv')

lemma available_loop_status:
  "p \<in> set (fst (available_loop ctry qual ex now ps)) \<Longrightarrow> px_status p \<noteq> BANNED \<and> px_status p \<noteq> COOLING"
proof (induction ps arbitrary: p)
  case Nil
  then show ?case by simp
next
  case (Cons kp ps)
  obtain k proxy where kp: "kp = (k, proxy)" by (cases kp)
  obtain av rest' where r: "available_loop ctry qual ex now ps = (av, rest')"
    by (cases "available_loop ctry qual ex now ps")
  from Cons.IH r have ih: "\<And>q. q \<in> set av \<Longrightarrow> px_status q \<noteq> BANNED \<and> px_status q \<noteq> COOLING"
    by simp
  from Cons.prems kp r show ?case
    by (auto simp add: Let_def split: if_splits dest: ih)
qed

text \<open>
  The lookups that go through the availability filter - \<open>get_available_proxies\<close>,
  \<open>get_best_proxy\<close> and \<open>get_random_proxy\<close> - never return a proxy whose status is
  \<open>BANNED\<close>, in any state of the pool.
\<close>

theorem filtered_lookups_return_no_banned_proxy:
  "(\<forall>p \<in> set (fst (get_available_proxies svc ctry qual ex now)). px_status p \<noteq> BANNED)
   \<and> (\<forall>p. fst (get_best_proxy svc ctry qual now) = Inr p \<longrightarrow> px_status p \<noteq> BANNED)
   \<and> (\<forall>p. fst (get_random_proxy svc ctry qual rnd now) = Inr p \<longrightarrow> px_status p \<noteq> BANNED)"
proof -
  have av: "px_status p \<noteq> BANNED" if "p \<in> set (fst (get_available_proxies svc c q e now))" for p c q e
    using that available_loop_status [of p c q e now "proxies svc"]
    by (simp add: get_available_proxies_def split: prod.splits)
  have best: "px_status p \<noteq> BANNED" if "fst (get_best_proxy svc ctry qual now) = Inr p" for p
  proof -
    let ?av = "fst (get_available_proxies svc ctry qual False now)"
    from that have ne: "?av \<noteq> []"
      and p: "p = hd (sort_key (\<lambda>p. (- success_rate p, avg_response_time_ms p)) ?av)"
      by (auto simp add: get_best_proxy_def split: prod.splits if_splits)
    have "sort_key (\<lambda>p. (- success_rate p, avg_response_time_ms p)) ?av \<noteq> []"
      using ne by (metis length_0_conv length_sort)
    then have "p \<in> set (sort_key (\<lambda>p. (- success_rate p, avg_response_time_ms p)) ?av)"
      unfolding p by (rule hd_in_set)
    then have "p \<in> set ?av" by simp
    then show ?thesis by (rule av)
  qed
  have rand: "px_status p \<noteq> BANNED" if "fst (get_random_proxy svc ctry qual rnd now) = Inr p" for p
  proof -
    let ?av = "fst (get_available_proxies svc ctry qual False now)"
    from that have ne: "?av \<noteq> []" and p: "p = random_choice (rnd 0) ?av"
      by (auto simp add: get_random_proxy_def split: prod.splits if_splits)
    have "p \<in> set ?av"
      unfolding p using ne by (simp add: random_choice_def)
    then show ?thesis by (rule av)
  qed
  show ?thesis
    using av best rand by blast
qed

theorem filtered_lookups_witness:
  "map_sum id px_status (fst (get_best_proxy mixed_pool None None 0)) = Inr ACTIVE
   \<and> map_sum id px_id (fst (get_best_proxy mixed_pool None None 0)) = Inr ''p2''"
proof -
  have e: "map_sum id px_id (fst (get_best_proxy mixed_pool None None 0)) = Inr ''p2''"
    and s: "map_sum id px_status (fst (get_best_proxy mixed_pool None None 0)) \<noteq> Inr SLOW"
      "map_sum id px_status (fst (get_best_proxy mixed_pool None None 0)) \<noteq> Inr FAILED"
      "map_sum id px_status (fst (get_best_proxy mixed_pool None None 0)) \<noteq> Inr COOLING"
    by code_simp+
  then obtain p where p: "fst (get_best_proxy mixed_pool None None 0) = Inr p"
    by (cases "fst (get_best_proxy mixed_pool None None 0)") auto
  from filtered_lookups_return_no_banned_proxy [of mixed_pool None None False 0 "const_rng 0"] p
  have "px_status p \<noteq> BANNED" by blast
  with p e s show ?thesis
    by (cases "px_status p") simp_all
qed

text \<open>
  Claim C4 holds for the three lookups above, and the code breaks it in
  \<open>assign_proxy_to_account\<close>, which returns the proxy named by \<open>proxy_id\<close>, or the
  proxy already assigned to the account, without looking at its status: for the proxy
  \<open>p1\<close> marked as banned, an assignment that names \<open>p1\<close> returns it, and so does a
  later assignment for the account that held \<open>p1\<close> when it was banned.
\<close>

theorem assign_returns_a_banned_proxy:
  "map_sum id px_status (fst (assign_proxy_to_account banned_pool ''acc1'' (Some ''p1'') None)) = Inr BANNED
   \<and> map_sum id px_status
       (fst (assign_proxy_to_account (snd (mark_proxy_banned example_pool ''p1'')) ''acc1'' None None))
     = Inr BANNED"
  by code_simp

text \<open>
  Claim C8. In a pool where the account has a proxy assigned that is still in the pool,
  \<open>assign_proxy_to_account\<close> returns that proxy and leaves the pool as it is, whatever
  its other arguments: two calls in a row return the same proxy, with the same id. After
  \<open>release_account_proxy\<close> the account has no entry in the map of assignments, the
  proxy it held has no account assigned, and an assignment that names any proxy of the
  pool returns that proxy, assigned to the account.
\<close>

theorem assignment_is_sticky_until_released:
  assumes m: "account_proxy_map svc acc = Some pid" and p: "map_of (proxies svc) pid = Some proxy"
  shows "assign_proxy_to_account svc acc proxy_id ctry = (Inr proxy, svc)
       \<and> assign_proxy_to_account (snd (assign_proxy_to_account svc acc proxy_id ctry)) acc proxy_id' ctry'
           = (Inr proxy, svc)
       \<and> fst (release_account_proxy svc acc) = True
       \<and> account_proxy_map (snd (release_account_proxy svc acc)) acc = None
       \<and> map_of (proxies (snd (release_account_proxy svc acc))) pid
           = Some (proxy\<lparr> assigned_to_account_id := None \<rparr>)
       \<and> (\<forall>q other. q \<noteq> [] \<and> map_of (proxies (snd (release_account_proxy svc acc))) q = Some other \<longrightarrow>
             fst (assign_proxy_to_account (snd (release_account_proxy svc acc)) acc (Some q) ctry'')
               = Inr (other\<lparr> assigned_to_account_id := Some acc \<rparr>))"
proof -
  have sticky: "assign_proxy_to_account svc acc x c = (Inr proxy, svc)" for x c
    using m p by (simp add: assign_proxy_to_account_def)
  have rel: "release_account_proxy svc acc
      = (True, svc\<lparr> account_proxy_map := (account_proxy_map svc)(acc := None),
                   proxies := AList.update pid (proxy\<lparr> assigned_to_account_id := None \<rparr>) (proxies svc) \<rparr>)"
    using m p by (simp add: release_account_proxy_def)
  have after: "fst (assign_proxy_to_account (snd (release_account_proxy svc acc)) acc (Some q) c)
      = Inr (other\<lparr> assigned_to_account_id := Some acc \<rparr>)"
    if "q \<noteq> []" "map_of (proxies (snd (release_account_proxy svc acc))) q = Some other" for q other c
    using that by (simp add: rel assign_proxy_to_account_def Let_def)
  show ?thesis
    using after by (simp add: sticky rel map_of_update)
qed

theorem sticky_assignment_witness:
  "assign_proxy_to_account example_pool ''acc1'' None None
     = (Inr ((ProxyConfig_init ''p1'' ''10.0.0.1'' 8080)\<lparr> assigned_to_account_id := Some ''acc1'' \<rparr>),
        example_pool)
   \<and> account_proxy_map (snd (release_account_proxy example_pool ''acc1'')) ''acc1'' = None
   \<and> fst (assign_proxy_to_account (snd (release_account_proxy example_pool ''acc1'')) ''acc1''
            (Some ''p2'') None)
       = Inr ((ProxyConfig_init ''p2'' ''10.0.0.2'' 8080)\<lparr> assigned_to_account_id := Some ''acc1'' \<rparr>)"
proof -
  let ?p1 = "(ProxyConfig_init ''p1'' ''10.0.0.1'' 8080)\<lparr> assigned_to_account_id := Some ''acc1'' \<rparr>"
  have m: "account_proxy_map example_pool ''acc1'' = Some ''p1''"
    by (simp add: example_pool_def assign_proxy_to_account_def add_proxy_def ProxyPoolService_init_def
        ProxyConfig_init_def Let_def)
  have p: "map_of (proxies example_pool) ''p1'' = Some ?p1"
    by (simp add: example_pool_def assign_proxy_to_account_def add_proxy_def ProxyPoolService_init_def
        ProxyConfig_init_def Let_def)
  have q: "''p2'' \<noteq> [] \<and> map_of (proxies (snd (release_account_proxy example_pool ''acc1''))) ''p2''
             = Some (ProxyConfig_init ''p2'' ''10.0.0.2'' 8080)"
    by (simp add: example_pool_def assign_proxy_to_account_def add_proxy_def ProxyPoolService_init_def
        ProxyConfig_init_def release_account_proxy_def Let_def)
  from assignment_is_sticky_until_released [OF m p, of None None None None None] q
  show ?thesis by blast
qed

section \<open>Follow-back detection\<close>

lemma check_mutual_stays:
  "rel_status rel = MUTUAL \<Longrightarrow>
     \<not> should_dm (fst (check_follow_back_with probe rel t0 t1 t2))
     \<and> \<not> changed (fst (check_follow_back_with probe rel t0 t1 t2))
     \<and> rel_status (snd (check_follow_back_with probe rel t0 t1 t2)) = MUTUAL"
  by (cases probe) (simp_all add: check_follow_back_with_def Let_def)

lemma check_not_mutual:
  "rel_status rel \<noteq> MUTUAL \<Longrightarrow>
     (should_dm (fst (check_follow_back_with probe rel t0 t1 t2)) \<longleftrightarrow> probe = Answers True)
     \<and> (changed (fst (check_follow_back_with probe rel t0 t1 t2)) \<longleftrightarrow> probe = Answers True)
     \<and> (rel_status (snd (check_follow_back_with probe rel t0 t1 t2))
          = (if probe = Answers True then MUTUAL else rel_status rel))
     \<and> previous_status (fst (check_follow_back_with probe rel t0 t1 t2)) = rel_status rel
     \<and> (probe = Answers True \<longrightarrow>
          current_status (fst (check_follow_back_with probe rel t0 t1 t2)) = MUTUAL)"
  by (cases probe) (auto simp add: check_follow_back_with_def Let_def)

lemma run_Cons:
  "fst (check_follow_back_run rel ((probe, t0, t1, t2) # cs))
     = fst (check_follow_back_with probe rel t0 t1 t2)
       # fst (check_follow_back_run (snd (check_follow_back_with probe rel t0 t1 t2)) cs)"
  by (simp add: Let_def split: prod.splits)

lemma run_length: "length (fst (check_follow_back_run rel cs)) = length cs"
proof (induction cs arbitrary: rel)
  case Nil
  then show ?case by simp
next
  case (Cons c cs)
  obtain probe t0 t1 t2 where c: "c = (probe, t0, t1, t2)" by (cases c)
  show ?case unfolding c run_Cons by (simp add: Cons.IH)
qed

lemma run_mutual:
  "rel_status rel = MUTUAL \<Longrightarrow> r \<in> set (fst (check_follow_back_run rel cs)) \<Longrightarrow>
     \<not> should_dm r \<and> \<not> changed r"
proof (induction cs arbitrary: rel)
  case Nil
  then show ?case by simp
next
  case (Cons c cs)
  obtain probe t0 t1 t2 where c: "c = (probe, t0, t1, t2)" by (cases c)
  from check_mutual_stays [OF Cons.prems(1), of probe t0 t1 t2] Cons.prems(2) Cons.IH
  show ?case unfolding c run_Cons by auto
qed

lemma run_not_mutual:
  "rel_status rel \<noteq> MUTUAL \<Longrightarrow> i < length cs \<Longrightarrow>
     (should_dm (fst (check_follow_back_run rel cs) ! i)
        \<longleftrightarrow> fst (cs ! i) = Answers True \<and> (\<forall>j<i. fst (cs ! j) \<noteq> Answers True))
     \<and> changed (fst (check_follow_back_run rel cs) ! i)
         = should_dm (fst (check_follow_back_run rel cs) ! i)
     \<and> (should_dm (fst (check_follow_back_run rel cs) ! i) \<longrightarrow>
          previous_status (fst (check_follow_back_run rel cs) ! i) = rel_status rel
          \<and> current_status (fst (check_follow_back_run rel cs) ! i) = MUTUAL)"
proof (induction cs arbitrary: rel i)
  case Nil
  then show ?case by simp
next
  case (Cons c cs)
  obtain probe t0 t1 t2 where c: "c = (probe, t0, t1, t2)" by (cases c)
  let ?rel1 = "snd (check_follow_back_with probe rel t0 t1 t2)"
  note step = check_not_mutual [OF Cons.prems(1), of probe t0 t1 t2]
  show ?case
  proof (cases i)
    case 0
    with step show ?thesis unfolding c run_Cons by auto
  next
    case (Suc k)
    with Cons.prems have k: "k < length cs" by simp
    show ?thesis
    proof (cases "probe = Answers True")
      case True
      with step have "rel_status ?rel1 = MUTUAL" by simp
      moreover have "fst (check_follow_back_run ?rel1 cs) ! k \<in> set (fst (check_follow_back_run ?rel1 cs))"
        using k by (simp add: run_length)
      ultimately have "\<not> should_dm (fst (check_follow_back_run ?rel1 cs) ! k)
          \<and> \<not> changed (fst (check_follow_back_run ?rel1 cs) ! k)"
        by (rule run_mutual)
      with True Suc show ?thesis unfolding c run_Cons by auto
    next
      case False
      with step Cons.prems(1) have "rel_status ?rel1 \<noteq> MUTUAL" and same: "rel_status ?rel1 = rel_status rel"
        by simp_all
      from Cons.IH [OF this(1) k] False Suc same show ?thesis
        unfolding c run_Cons by (simp add: All_less_Suc2)
    qed
  qed
qed

lemma run_at_most_once:
  "length (filter changed (fst (check_follow_back_run rel cs))) \<le> 1"
proof (induction cs arbitrary: rel)
  case Nil
  then show ?case by simp
next
  case (Cons c cs)
  obtain probe t0 t1 t2 where c: "c = (probe, t0, t1, t2)" by (cases c)
  let ?rel1 = "snd (check_follow_back_with probe rel t0 t1 t2)"
  show ?case
  proof (cases "changed (fst (check_follow_back_with probe rel t0 t1 t2))")
    case True
    then have "rel_status ?rel1 = MUTUAL"
      by (cases probe) (auto simp add: check_follow_back_with_def Let_def split: if_splits)
    then have "filter changed (fst (check_follow_back_run ?rel1 cs)) = []"
      using run_mutual [of ?rel1 _ cs] by (auto simp add: filter_empty_conv)
    with True show ?thesis unfolding c run_Cons by simp
  next
    case False
    with Cons.IH [of ?rel1] show ?thesis unfolding c run_Cons by simp
  qed
qed

lemma register_follow_status:
  "rel_status (fst (register_follow svc acc target uname False t1 t2)) = FOLLOWING"
  by (simp add: register_follow_def Let_def split: option.splits)

text \<open>
  Claim C6. A relationship is registered with \<open>is_private = False\<close> and then checked any
  number of times, the probe of each check answering or raising as it will. The check
  number \<open>i\<close> has \<open>should_dm\<close> set exactly when its probe is the first to answer that
  the target follows back; that check reports \<open>changed\<close> and the transition from
  \<open>FOLLOWING\<close> to \<open>MUTUAL\<close>, every other check has \<open>should_dm\<close> and \<open>changed\<close>
  unset, also when the target still follows back; so the relationship becomes mutual
  once at most. (The probe of the source is a mock that never answers that the target
  follows back: with it no check sets \<open>should_dm\<close>.)
\<close>

theorem follow_back_sets_should_dm_once:
  assumes "i < length cs"
  shows "(should_dm (fst (check_follow_back_run
                            (fst (register_follow svc acc target uname False t1 t2)) cs) ! i)
            \<longleftrightarrow> fst (cs ! i) = Answers True \<and> (\<forall>j<i. fst (cs ! j) \<noteq> Answers True))
       \<and> changed (fst (check_follow_back_run
                         (fst (register_follow svc acc target uname False t1 t2)) cs) ! i)
           = should_dm (fst (check_follow_back_run
                               (fst (register_follow svc acc target uname False t1 t2)) cs) ! i)
       \<and> (should_dm (fst (check_follow_back_run
                             (fst (register_follow svc acc target uname False t1 t2)) cs) ! i) \<longrightarrow>
            previous_status (fst (check_follow_back_run
                                    (fst (register_follow svc acc target uname False t1 t2)) cs) ! i)
              = FOLLOWING
            \<and> current_status (fst (check_follow_back_run
                                     (fst (register_follow svc acc target uname False t1 t2)) cs) ! i)
              = MUTUAL)
       \<and> length (filter changed (fst (check_follow_back_run
                                        (fst (register_follow svc acc target uname False t1 t2)) cs))) \<le> 1
       \<and> length (filter should_dm (fst (check_follow_back_run
                                          (fst (register_follow svc acc target uname False t1 t2)) cs))) \<le> 1"
proof -
  let ?rel = "fst (register_follow svc acc target uname False t1 t2)"
  let ?res = "fst (check_follow_back_run ?rel cs)"
  have st: "rel_status ?rel = FOLLOWING"
    by (rule register_follow_status)
  then have nm: "rel_status ?rel \<noteq> MUTUAL"
    by simp
  have same: "changed r = should_dm r" if "r \<in> set ?res" for r
  proof -
    from that obtain k where "k < length ?res" "r = ?res ! k"
      by (auto simp add: in_set_conv_nth)
    with run_not_mutual [OF nm, of k cs] show ?thesis
      by (simp add: run_length)
  qed
  then have "filter should_dm ?res = filter changed ?res"
    by (auto intro: filter_cong)
  with run_at_most_once [of ?rel cs] run_not_mutual [OF nm assms] st
  show ?thesis by simp
qed

theorem follow_back_witness:
  "\<not> should_dm (fst (check_follow_back_run
                      (fst (register_follow FollowBackDetectorService_init ''acc1'' ''u1'' ''user_one'' False 0 0))
                      [(Answers False, 1, 1, 1), (Answers True, 2, 2, 2), (Answers True, 3, 3, 3)]) ! 0)
   \<and> should_dm (fst (check_follow_back_run
                      (fst (register_follow FollowBackDetectorService_init ''acc1'' ''u1'' ''user_one'' False 0 0))
                      [(Answers False, 1, 1, 1), (Answers True, 2, 2, 2), (Answers True, 3, 3, 3)]) ! 1)
   \<and> \<not> should_dm (fst (check_follow_back_run
                      (fst (register_follow FollowBackDetectorService_init ''acc1'' ''u1'' ''user_one'' False 0 0))
                      [(Answers False, 1, 1, 1), (Answers True, 2, 2, 2), (Answers True, 3, 3, 3)]) ! 2)"
proof -
  let ?cs = "[(Answers False, 1, 1, 1), (Answers True, 2, 2, 2), (Answers True, 3, 3, 3)]
               :: (probe_outcome \<times> datetime \<times> datetime \<times> datetime) list"
  have l: "0 < length ?cs" "1 < length ?cs" "2 < length ?cs"
    by simp_all
  have two: "(\<forall>j<2. P j) \<longleftrightarrow> P 0 \<and> P (Suc 0)" for P :: "nat \<Rightarrow> bool"
    by (auto simp add: numeral_2_eq_2 All_less_Suc)
  from follow_back_sets_should_dm_once [OF l(1), of FollowBackDetectorService_init "''acc1''" "''u1''" "''user_one''" 0 0]
    follow_back_sets_should_dm_once [OF l(2), of FollowBackDetectorService_init "''acc1''" "''u1''" "''user_one''" 0 0]
    follow_back_sets_should_dm_once [OF l(3), of FollowBackDetectorService_init "''acc1''" "''u1''" "''user_one''" 0 0]
  show ?thesis
    by (simp add: two)
qed

lemma dm_sent_metadata: "rel_metadata r' = rel_metadata r \<Longrightarrow> dm_sent r' = dm_sent r"
  by (simp add: dm_sent_def)

lemma check_keeps_metadata:
  "rel_metadata (snd (check_follow_back_with probe rel t0 t1 t2)) = rel_metadata rel"
  by (cases probe) (simp_all add: check_follow_back_with_def Let_def)

lemma timeouts_loop_keeps_metadata:
  "map_of rels key = Some r \<Longrightarrow>
     \<exists>r'. map_of (snd (process_timeouts_loop a raises clock now rels)) key = Some r'
          \<and> rel_metadata r' = rel_metadata r"
proof (induction rels)
  case Nil
  then show ?case by simp
next
  case (Cons kr rels)
  obtain k rel where kr: "kr = (k, rel)" by (cases kr)
  obtain un rest' where l: "process_timeouts_loop a raises clock now rels = (un, rest')"
    by (cases "process_timeouts_loop a raises clock now rels")
  show ?case
  proof (cases "k = key")
    case True
    with Cons.prems kr have "rel = r" by simp
    with True kr l show ?thesis by (simp add: Let_def)
  next
    case False
    with Cons.prems kr have "map_of rels key = Some r" by simp
    from Cons.IH [OF this] l False kr show ?thesis by (simp add: Let_def)
  qed
qed

lemma messaged_step: "messaged svc key \<Longrightarrow> messaged (apply_follow_op svc op) key"
proof -
  assume "messaged svc key"
  then obtain r where r: "map_of (relationships svc) key = Some r" and d: "dm_sent r"
    by (auto simp add: messaged_def)
  show ?thesis
  proof (cases op)
    case (Register_follow sub_acc target uname is_private now1 now2)
    show ?thesis
    proof (cases "relationship_key sub_acc target = key")
      case True
      with r d Register_follow show ?thesis
        by (simp add: messaged_def register_follow_def Let_def map_of_update dm_sent_def)
    next
      case False
      with r d Register_follow show ?thesis
        by (auto simp add: messaged_def register_follow_def Let_def map_of_update)
    qed
  next
    case (Set_timeout_days days)
    with r d show ?thesis
      by (auto simp add: messaged_def set_timeout_days_def)
  next
    case (Check_follow_back k probe now0 now1 now2)
    show ?thesis
    proof (cases "k = key")
      case True
      with r d Check_follow_back check_keeps_metadata [of probe r now0 now1 now2] show ?thesis
        by (auto simp add: messaged_def check_stored_def map_of_update dm_sent_def split: prod.splits)
    next
      case False
      with r d Check_follow_back show ?thesis
        by (auto simp add: messaged_def check_stored_def map_of_update split: prod.splits option.splits)
    qed
  next
    case (Process_timeouts sub_acc raises clock now)
    from timeouts_loop_keeps_metadata [OF r, of "Some sub_acc" raises clock now] d
    show ?thesis
      unfolding Process_timeouts
      by (auto simp add: messaged_def process_timeouts_def dm_sent_def split: prod.splits)
  next
    case (Mark_dm_sent k now)
    show ?thesis
    proof (cases "k = key")
      case True
      with r Mark_dm_sent show ?thesis
        by (simp add: messaged_def mark_dm_sent_def map_of_update dm_sent_def)
    next
      case False
      with r d Mark_dm_sent show ?thesis
        by (auto simp add: messaged_def mark_dm_sent_def map_of_update split: option.splits)
    qed
  qed
qed

lemma messaged_run: "messaged svc key \<Longrightarrow> messaged (run_follow_ops svc ops) key"
  unfolding run_follow_ops_def
  by (induction ops arbitrary: svc) (simp_all add: messaged_step)

lemma dm_ready_not_sent: "r \<in> set (get_dm_ready_targets svc a) \<Longrightarrow> \<not> dm_sent r"
  by (simp add: get_dm_ready_targets_def)

text \<open>
  Claim C10. \<open>register_follow\<close> for a pair that has a relationship already changes
  \<open>status\<close>, \<open>followed_at\<close> and \<open>timeout_at\<close> of that relationship and nothing
  else: the metadata (with the flag \<open>dm_sent\<close>), \<open>is_private_account\<close>,
  \<open>check_count\<close> and the other fields stay. So when the flag \<open>dm_sent\<close> was set, it
  is still set after the follow is registered again and after any later calls of the
  service, and \<open>get_dm_ready_targets\<close> never returns the relationship, for any account,
  also when it has become mutual again.
\<close>

theorem refollow_resets_three_fields_and_keeps_dm_sent:
  assumes old: "map_of (relationships svc) (relationship_key acc target) = Some old"
  shows "fst (register_follow svc acc target uname is_private t1 t2)
           = old\<lparr> rel_status := (if is_private then PENDING else FOLLOWING),
                  followed_at := Some t1,
                  timeout_at := Some (t2 + timedelta_days (timeout_days svc)) \<rparr>
       \<and> map_of (relationships (snd (register_follow svc acc target uname is_private t1 t2)))
             (relationship_key acc target)
           = Some (fst (register_follow svc acc target uname is_private t1 t2))
       \<and> rel_metadata (fst (register_follow svc acc target uname is_private t1 t2)) = rel_metadata old
       \<and> is_private_account (fst (register_follow svc acc target uname is_private t1 t2))
           = is_private_account old
       \<and> check_count (fst (register_follow svc acc target uname is_private t1 t2)) = check_count old
       \<and> target_username (fst (register_follow svc acc target uname is_private t1 t2))
           = target_username old
       \<and> follow_back_at (fst (register_follow svc acc target uname is_private t1 t2))
           = follow_back_at old
       \<and> unfollow_at (fst (register_follow svc acc target uname is_private t1 t2)) = unfollow_at old
       \<and> last_checked_at (fst (register_follow svc acc target uname is_private t1 t2))
           = last_checked_at old
       \<and> (dm_sent old \<longrightarrow>
            (\<forall>ops. \<exists>r. map_of (relationships
                            (run_follow_ops (snd (register_follow svc acc target uname is_private t1 t2)) ops))
                          (relationship_key acc target) = Some r
                      \<and> dm_sent r
                      \<and> (\<forall>a. r \<notin> set (get_dm_ready_targets
                                          (run_follow_ops
                                             (snd (register_follow svc acc target uname is_private t1 t2)) ops)
                                          a))))"
proof -
  let ?key = "relationship_key acc target"
  let ?new = "old\<lparr> rel_status := (if is_private then PENDING else FOLLOWING),
                    followed_at := Some t1,
                    timeout_at := Some (t2 + timedelta_days (timeout_days svc)) \<rparr>"
  let ?svc1 = "snd (register_follow svc acc target uname is_private t1 t2)"
  have new: "fst (register_follow svc acc target uname is_private t1 t2) = ?new"
    using old by (simp add: register_follow_def Let_def)
  have stored: "map_of (relationships ?svc1) ?key = Some ?new"
    using old by (simp add: register_follow_def Let_def map_of_update)
  have later: "\<exists>r. map_of (relationships (run_follow_ops ?svc1 ops)) ?key = Some r \<and> dm_sent r
                   \<and> (\<forall>a. r \<notin> set (get_dm_ready_targets (run_follow_ops ?svc1 ops) a))"
    if "dm_sent old" for ops
  proof -
    from that stored have "messaged ?svc1 ?key"
      by (auto simp add: messaged_def dm_sent_def)
    then have "messaged (run_follow_ops ?svc1 ops) ?key"
      by (rule messaged_run)
    then obtain r where "map_of (relationships (run_follow_ops ?svc1 ops)) ?key = Some r" "dm_sent r"
      by (auto simp add: messaged_def)
    with dm_ready_not_sent show ?thesis by blast
  qed
  show ?thesis
    unfolding new stored using later by simp
qed

theorem refollow_witness:
  "\<exists>r. map_of (relationships
                 (run_follow_ops
                    (snd (register_follow messaged_follows ''acc1'' ''u1'' ''user_one'' False 3 3))
                    [Check_follow_back ''acc1_u1'' (Answers True) 4 4 4]))
               ''acc1_u1'' = Some r
        \<and> rel_status r = MUTUAL
        \<and> dm_sent r
        \<and> r \<notin> set (get_dm_ready_targets
                      (run_follow_ops
                         (snd (register_follow messaged_follows ''acc1'' ''u1'' ''user_one'' False 3 3))
                         [Check_follow_back ''acc1_u1'' (Answers True) 4 4 4])
                      ''acc1'')"
proof -
  have k: "relationship_key ''acc1'' ''u1'' = ''acc1_u1''"
    by (simp add: relationship_key_def)
  have "map_option dm_sent (map_of (relationships messaged_follows) ''acc1_u1'') = Some True"
    by code_simp
  then obtain old where old: "map_of (relationships messaged_follows) (relationship_key ''acc1'' ''u1'') = Some old"
    and d: "dm_sent old"
    unfolding k by (cases "map_of (relationships messaged_follows) ''acc1_u1''") auto
  have again: "map_option rel_status
      (map_of (relationships
                 (run_follow_ops
                    (snd (register_follow messaged_follows ''acc1'' ''u1'' ''user_one'' False 3 3))
                    [Check_follow_back ''acc1_u1'' (Answers True) 4 4 4]))
              ''acc1_u1'') = Some MUTUAL"
    by code_simp
  from refollow_resets_three_fields_and_keeps_dm_sent [OF old, of "''user_one''" False 3 3] d again
  show ?thesis
    unfolding k by fastforce
qed

section \<open>Conversation flows\<close>

lemma process_message_step:
  assumes st: "states svc cid = Some st" and fl: "flows svc (flow_id st) = Some flow"
    and nd: "nodes flow (current_node_id st) \<noteq> None"
  shows "flows (snd (process_message_with detect svc cid m rnd now)) = flows svc
       \<and> (\<exists>st'. states (snd (process_message_with detect svc cid m rnd now)) cid = Some st'
               \<and> flow_id st' = flow_id st
               \<and> nodes flow (current_node_id st') \<noteq> None
               \<and> failed_intents st' = failed_intents st + (if detect m = UNKNOWN then 1 else 0))
       \<and> (detect m = UNKNOWN \<and> 3 \<le> failed_intents st + 1 \<longrightarrow>
            requires_human (fst (process_message_with detect svc cid m rnd now))
            \<and> should_respond (fst (process_message_with detect svc cid m rnd now))
            \<and> response_text (fst (process_message_with detect svc cid m rnd now)) = Some handoff_text)"
proof -
  from nd obtain current_node where cn: "nodes flow (current_node_id st) = Some current_node"
    by auto
  show ?thesis
    using st fl cn
    by (auto simp add: process_message_with_def Let_def FlowResponse_init_def truthy_def
        split: option.splits prod.splits)
qed

lemma process_messages_Cons:
  "process_messages_with detect svc cid ((m, rnd, now) # rest)
     = (fst (process_message_with detect svc cid m rnd now)
          # fst (process_messages_with detect (snd (process_message_with detect svc cid m rnd now)) cid rest),
        snd (process_messages_with detect (snd (process_message_with detect svc cid m rnd now)) cid rest))"
  by (simp add: Let_def split: prod.splits)

lemma process_messages_run:
  assumes "states svc cid = Some st" and "flows svc (flow_id st) = Some flow"
    and "nodes flow (current_node_id st) \<noteq> None"
  shows "(\<exists>st'. states (snd (process_messages_with detect svc cid msgs)) cid = Some st'
            \<and> failed_intents st'
                = failed_intents st + int (length (filter (\<lambda>x. detect (fst x) = UNKNOWN) msgs)))
       \<and> (\<forall>i<length msgs.
             detect (fst (msgs ! i)) = UNKNOWN
             \<and> 3 \<le> failed_intents st
                     + int (length (filter (\<lambda>x. detect (fst x) = UNKNOWN) (take (Suc i) msgs)))
             \<longrightarrow> requires_human (fst (process_messages_with detect svc cid msgs) ! i)
                 \<and> should_respond (fst (process_messages_with detect svc cid msgs) ! i)
                 \<and> response_text (fst (process_messages_with detect svc cid msgs) ! i)
                     = Some handoff_text)"
  using assms
proof (induction msgs arbitrary: svc st)
  case Nil
  then show ?case by simp
next
  case (Cons x msgs)
  obtain m rnd now where x: "x = (m, rnd, now)" by (cases x)
  let ?svc1 = "snd (process_message_with detect svc cid m rnd now)"
  note step = process_message_step [OF Cons.prems, of detect m rnd now]
  then obtain st1 where st1: "states ?svc1 cid = Some st1"
    and fid: "flow_id st1 = flow_id st"
    and nd1: "nodes flow (current_node_id st1) \<noteq> None"
    and cnt: "failed_intents st1 = failed_intents st + (if detect m = UNKNOWN then 1 else 0)"
    by blast
  have fl1: "flows ?svc1 (flow_id st1) = Some flow"
    using step Cons.prems(2) fid by simp
  note ih = Cons.IH [OF st1 fl1 nd1]
  have first: "\<exists>st'. states (snd (process_messages_with detect svc cid (x # msgs))) cid = Some st'
      \<and> failed_intents st'
          = failed_intents st + int (length (filter (\<lambda>x. detect (fst x) = UNKNOWN) (x # msgs)))"
    using ih cnt unfolding x process_messages_Cons by auto
  have second: "requires_human (fst (process_messages_with detect svc cid (x # msgs)) ! i)
      \<and> should_respond (fst (process_messages_with detect svc cid (x # msgs)) ! i)
      \<and> response_text (fst (process_messages_with detect svc cid (x # msgs)) ! i) = Some handoff_text"
    if i: "i < length (x # msgs)" and u: "detect (fst ((x # msgs) ! i)) = UNKNOWN"
      and three: "3 \<le> failed_intents st
                      + int (length (filter (\<lambda>x. detect (fst x) = UNKNOWN) (take (Suc i) (x # msgs))))"
    for i
  proof (cases i)
    case 0
    with u three step show ?thesis
      unfolding x process_messages_Cons by simp
  next
    case (Suc k)
    with i have k: "k < length msgs" by simp
    from u Suc have uk: "detect (fst (msgs ! k)) = UNKNOWN" by simp
    from three Suc cnt have
      "3 \<le> failed_intents st1
            + int (length (filter (\<lambda>x. detect (fst x) = UNKNOWN) (take (Suc k) msgs)))"
      unfolding x by (simp split: if_splits)
    with ih k uk Suc show ?thesis
      unfolding x process_messages_Cons by simp
  qed
  from first second show ?case by blast
qed

lemma last_three_unknown:
  assumes "2 \<le> i" "i < length msgs"
    and "P (msgs ! (i - 2))" "P (msgs ! (i - 1))" "P (msgs ! i)"
  shows "3 \<le> length (filter P (take (Suc i) msgs))"
proof -
  from assms(1) obtain k where i: "i = Suc (Suc k)"
    by (metis Suc_leD add_2_eq_Suc le_Suc_ex)
  with assms(2) have lk: "k < length msgs" "Suc k < length msgs" "Suc (Suc k) < length msgs"
    by simp_all
  have "take (Suc i) msgs = take k msgs @ [msgs ! k, msgs ! Suc k, msgs ! Suc (Suc k)]"
    unfolding i by (simp add: take_Suc_conv_app_nth lk)
  with assms(3-5) i show ?thesis
    by simp
qed

text \<open>
  Claim C5, as amended. In a conversation whose state, flow and current node are found,
  \<open>failed_intents\<close> counts all the inbound messages of unknown intent: every such
  message adds one, and no message of a recognised intent resets the count. A message
  of unknown intent that brings the count to three or more is answered with
  \<open>requires_human = True\<close> and the fixed hand-off text, whatever the routing of the
  current node; in particular the third of three consecutive messages of unknown intent
  is, in a conversation whose count was not negative.
\<close>

theorem unknown_intents_accumulate_and_force_the_handoff:
  assumes "states svc cid = Some st" and "flows svc (flow_id st) = Some flow"
    and "nodes flow (current_node_id st) \<noteq> None"
  shows "(\<exists>st'. states (snd (process_messages_with detect svc cid msgs)) cid = Some st'
            \<and> failed_intents st'
                = failed_intents st + int (length (filter (\<lambda>x. detect (fst x) = UNKNOWN) msgs)))
       \<and> (\<forall>i<length msgs.
             detect (fst (msgs ! i)) = UNKNOWN
             \<and> 3 \<le> failed_intents st
                     + int (length (filter (\<lambda>x. detect (fst x) = UNKNOWN) (take (Suc i) msgs)))
             \<longrightarrow> requires_human (fst (process_messages_with detect svc cid msgs) ! i)
                 \<and> should_respond (fst (process_messages_with detect svc cid msgs) ! i)
                 \<and> response_text (fst (process_messages_with detect svc cid msgs) ! i)
                     = Some handoff_text)
       \<and> (\<forall>i. 0 \<le> failed_intents st \<and> 2 \<le> i \<and> i < length msgs
               \<and> detect (fst (msgs ! (i - 2))) = UNKNOWN
               \<and> detect (fst (msgs ! (i - 1))) = UNKNOWN
               \<and> detect (fst (msgs ! i)) = UNKNOWN
             \<longrightarrow> requires_human (fst (process_messages_with detect svc cid msgs) ! i))"
proof -
  note run = process_messages_run [OF assms, of detect msgs]
  have third: "requires_human (fst (process_messages_with detect svc cid msgs) ! i)"
    if "0 \<le> failed_intents st" "2 \<le> i" "i < length msgs"
      "detect (fst (msgs ! (i - 2))) = UNKNOWN" "detect (fst (msgs ! (i - 1))) = UNKNOWN"
      "detect (fst (msgs ! i)) = UNKNOWN" for i
  proof -
    from last_three_unknown [of i msgs "\<lambda>x. detect (fst x) = UNKNOWN", OF that(2,3)] that(4-6)
    have "3 \<le> length (filter (\<lambda>x. detect (fst x) = UNKNOWN) (take (Suc i) msgs))"
      by simp
    with that(1) have "3 \<le> failed_intents st
        + int (length (filter (\<lambda>x. detect (fst x) = UNKNOWN) (take (Suc i) msgs)))"
      by linarith
    with run that(3,6) show ?thesis by blast
  qed
  from run third show ?thesis by blast
qed

theorem unknown_intents_witness:
  "requires_human
     (fst (process_messages_with detect_intent example_conversations ''c1''
             [(''zzz'', const_rng 0, 1), (''qqq'', const_rng 0, 2), (''xyz'', const_rng 0, 3)]) ! 2)
   \<and> map_option failed_intents
       (states (snd (process_messages_with detect_intent example_conversations ''c1''
                       [(''zzz'', const_rng 0, 1), (''qqq'', const_rng 0, 2), (''xyz'', const_rng 0, 3)]))
          ''c1'') = Some 3"
proof -
  let ?msgs = "[(''zzz'', const_rng 0, 1), (''qqq'', const_rng 0, 2), (''xyz'', const_rng 0, 3)]
                 :: (string \<times> rng \<times> datetime) list"
  have "map_option (\<lambda>s. (flow_id s, current_node_id s, failed_intents s))
          (states example_conversations ''c1'') = Some (''standard_outreach'', ''start'', 0)"
    by code_simp
  then obtain st where st: "states example_conversations ''c1'' = Some st"
    and f: "flow_id st = ''standard_outreach''" "current_node_id st = ''start''" "failed_intents st = 0"
    by (cases "states example_conversations ''c1''") auto
  have fl: "flows example_conversations (flow_id st) = Some example_flow"
    unfolding f
    by (simp add: example_conversations_def add_flow_def start_conversation_def Let_def example_flow_def)
  have nd: "nodes example_flow (current_node_id st) \<noteq> None"
    unfolding f by (simp add: example_flow_def)
  have u: "detect_intent ''zzz'' = UNKNOWN" "detect_intent ''qqq'' = UNKNOWN" "detect_intent ''xyz'' = UNKNOWN"
    by code_simp+
  from unknown_intents_accumulate_and_force_the_handoff [OF st fl nd, of detect_intent ?msgs] u f
  show ?thesis
    by (auto simp add: numeral_3_eq_3 numeral_2_eq_2)
qed

text \<open>
  The claim as it was stated fails: after a message of unknown intent and a greeting the
  count is one, not zero; and the fourth of the messages \<open>zzz\<close>, \<open>zzz\<close>, \<open>hello\<close>,
  \<open>zzz\<close> is answered with the hand-off, the greeting before it notwithstanding.
\<close>

theorem unknown_intents_counterexample:
  "map_option failed_intents
     (states (snd (process_messages_with detect_intent example_conversations ''c1''
                     [(''zzz'', const_rng 0, 1), (''hello'', const_rng 0, 2)])) ''c1'') = Some 1
   \<and> map detected_intent
       (fst (process_messages_with detect_intent example_conversations ''c1''
               [(''zzz'', const_rng 0, 1), (''zzz'', const_rng 0, 2), (''hello'', const_rng 0, 3),
                (''zzz'', const_rng 0, 4)])) = [UNKNOWN, UNKNOWN, GREETING, UNKNOWN]
   \<and> map requires_human
       (fst (process_messages_with detect_intent example_conversations ''c1''
               [(''zzz'', const_rng 0, 1), (''zzz'', const_rng 0, 2), (''hello'', const_rng 0, 3),
                (''zzz'', const_rng 0, 4)])) = [False, False, False, True]"
  by code_simp

end
